theory Spec2Isabelle
  imports Main "HOL-Library.AList" "HOL-Library.Char_ord" "HOL-Library.List_Lexorder"
begin

section \<open>Item connections of \<^verbatim>\<open>connections.py\<close>\<close>

text \<open>
  The module keeps Python objects that refer to each other: an \<^verbatim>\<open>Item\<close> holds sets of
  \<^verbatim>\<open>Connection\<close> objects, a \<^verbatim>\<open>Connection\<close> holds its two \<^verbatim>\<open>Item\<close>s, and both refer
  to entities of the map file. Objects are compared by identity, so each class gets a store
  indexed by natural numbers (the object's address), and a reference is such an address.
\<close>

subsection \<open>Enumerations\<close>

datatype ConnType = DEFAULT | PRIMARY | SECONDARY | BOTH

text \<open>\<^verbatim>\<open>TBEAM_IO\<close> and \<^verbatim>\<open>TBEAM_DIR\<close> are aliases of \<^verbatim>\<open>PRIMARY\<close> and \<^verbatim>\<open>SECONDARY\<close>.\<close>

abbreviation TBEAM_IO :: ConnType where "TBEAM_IO \<equiv> PRIMARY"
abbreviation TBEAM_DIR :: ConnType where "TBEAM_DIR \<equiv> SECONDARY"

text \<open>\<^verbatim>\<open>ConnType(value)\<close>: the member with that value, or \<^verbatim>\<open>ValueError\<close> (here \<open>None\<close>).\<close>

definition ConnType_of :: "string \<Rightarrow> ConnType option" where
  "ConnType_of s =
     (if s = ''default'' then Some DEFAULT
      else if s = ''primary'' then Some PRIMARY
      else if s = ''secondary'' then Some SECONDARY
      else if s = ''both'' then Some BOTH
      else None)"

datatype error = ValueError string | IndexError | KeyError string | AssertionError string

text \<open>\<^verbatim>\<open>str.casefold\<close> on ASCII text: the upper-case letters are lowered.\<close>

definition casefold_char :: "char \<Rightarrow> char" where
  "casefold_char c =
     (case map_of (zip ''ABCDEFGHIJKLMNOPQRSTUVWXYZ'' ''abcdefghijklmnopqrstuvwxyz'') c of
        None \<Rightarrow> c
      | Some l \<Rightarrow> l)"

definition casefold :: "string \<Rightarrow> string" where
  "casefold s = map casefold_char s"

subsection \<open>Outputs, items and connections\<close>

text \<open>An \<^verbatim>\<open>Output\<close> of the map file: the fields the module reads.\<close>

record Output =
  target :: string
  inst_in :: "string option"
  input :: string

text \<open>The command descriptor \<^verbatim>\<open>Tuple[Optional[str], str]\<close> returned by \<^verbatim>\<open>Output.parse_name\<close>.\<close>

type_synonym cmd = "string option \<times> string"

record ItemType =
  type_id :: string
  default_dual :: "ConnType option"
  invert_var :: string
  enable_cmd :: cmd
  disable_cmd :: cmd
  sec_invert_var :: "string option"
  sec_enable_cmd :: "cmd option"
  sec_disable_cmd :: "cmd option"
  output_type :: ConnType

text \<open>
  \<^verbatim>\<open>Item\<close>: \<open>inst\<close>, the panels, the toggle and the antlines are addresses of entities,
  \<open>inputs\<close> and \<open>outputs\<close> are sets of addresses of connections.
\<close>

record Item =
  inst :: nat
  item_type :: ItemType
  ind_panels :: "nat set"
  ind_toggle :: "nat option"
  antlines :: "nat set"
  shape_signs :: "nat list"
  timer :: "int option"
  outputs :: "nat set"
  inputs :: "nat set"

text \<open>\<^verbatim>\<open>Connection\<close>: \<open>inp\<close> is the item triggered, \<open>out\<close> the item it comes from.\<close>

record Connection =
  inp :: nat
  out :: nat
  type :: ConnType
  conn_outputs :: "Output list"

text \<open>The two object stores, with the next free address of each.\<close>

record graph =
  items :: "nat \<Rightarrow> Item"
  conns :: "nat \<Rightarrow> Connection"
  next_item :: nat
  next_conn :: nat

subsection \<open>\<^verbatim>\<open>Connection.add\<close>, \<^verbatim>\<open>remove\<close>, \<^verbatim>\<open>set_item\<close>\<close>

definition inputs_add :: "nat \<Rightarrow> nat \<Rightarrow> (nat \<Rightarrow> Item) \<Rightarrow> (nat \<Rightarrow> Item)" where
  "inputs_add i c its = its(i := (its i)\<lparr>inputs := insert c (inputs (its i))\<rparr>)"

definition outputs_add :: "nat \<Rightarrow> nat \<Rightarrow> (nat \<Rightarrow> Item) \<Rightarrow> (nat \<Rightarrow> Item)" where
  "outputs_add i c its = its(i := (its i)\<lparr>outputs := insert c (outputs (its i))\<rparr>)"

definition inputs_discard :: "nat \<Rightarrow> nat \<Rightarrow> (nat \<Rightarrow> Item) \<Rightarrow> (nat \<Rightarrow> Item)" where
  "inputs_discard i c its = its(i := (its i)\<lparr>inputs := inputs (its i) - {c}\<rparr>)"

definition outputs_discard :: "nat \<Rightarrow> nat \<Rightarrow> (nat \<Rightarrow> Item) \<Rightarrow> (nat \<Rightarrow> Item)" where
  "outputs_discard i c its = its(i := (its i)\<lparr>outputs := outputs (its i) - {c}\<rparr>)"

text \<open>
  \<^verbatim>\<open>self.inp.inputs.add(self); self.out.outputs.add(self)\<close>, for the connection at address
  \<open>c\<close>. The second update reads the store the first one wrote: \<open>inp\<close> and \<open>out\<close> may be the
  same item.
\<close>

definition add :: "nat \<Rightarrow> 'a graph_scheme \<Rightarrow> 'a graph_scheme" where
  "add c g =
     g\<lparr>items := outputs_add (out (conns g c)) c (inputs_add (inp (conns g c)) c (items g))\<rparr>"

definition remove :: "nat \<Rightarrow> 'a graph_scheme \<Rightarrow> 'a graph_scheme" where
  "remove c g =
     g\<lparr>items :=
         outputs_discard (out (conns g c)) c (inputs_discard (inp (conns g c)) c (items g))\<rparr>"

definition set_inp ::
  "nat \<Rightarrow> nat option \<Rightarrow> 'a graph_scheme \<Rightarrow> 'a graph_scheme" where
  "set_inp c new g =
     (case new of None \<Rightarrow> g | Some i \<Rightarrow> g\<lparr>conns := (conns g)(c := (conns g c)\<lparr>inp := i\<rparr>)\<rparr>)"

definition set_out ::
  "nat \<Rightarrow> nat option \<Rightarrow> 'a graph_scheme \<Rightarrow> 'a graph_scheme" where
  "set_out c new g =
     (case new of None \<Rightarrow> g | Some i \<Rightarrow> g\<lparr>conns := (conns g)(c := (conns g c)\<lparr>out := i\<rparr>)\<rparr>)"

definition set_item ::
  "nat \<Rightarrow> nat option \<Rightarrow> nat option \<Rightarrow> 'a graph_scheme \<Rightarrow> 'a graph_scheme" where
  "set_item c new_input new_output g =
     add c (set_out c new_output (set_inp c new_input (remove c g)))"

text \<open>A program over the three operations, and the graph it leaves.\<close>

datatype conn_op = Add nat | Remove nat | SetItem nat "nat option" "nat option"

fun apply_conn_op :: "conn_op \<Rightarrow> 'a graph_scheme \<Rightarrow> 'a graph_scheme" where
  "apply_conn_op (Add c) g = add c g"
| "apply_conn_op (Remove c) g = remove c g"
| "apply_conn_op (SetItem c i o') g = set_item c i o' g"

fun run_conn_ops :: "conn_op list \<Rightarrow> 'a graph_scheme \<Rightarrow> 'a graph_scheme" where
  "run_conn_ops [] g = g"
| "run_conn_ops (x # xs) g = run_conn_ops xs (apply_conn_op x g)"

text \<open>Membership of connection \<open>c\<close> in the two directories of its own endpoints.\<close>

definition in_target_inputs :: "'a graph_scheme \<Rightarrow> nat \<Rightarrow> bool" where
  "in_target_inputs g c = (c \<in> inputs (items g (inp (conns g c))))"

definition in_source_outputs :: "'a graph_scheme \<Rightarrow> nat \<Rightarrow> bool" where
  "in_source_outputs g c = (c \<in> outputs (items g (out (conns g c))))"

definition dual_membership :: "'a graph_scheme \<Rightarrow> nat \<Rightarrow> bool" where
  "dual_membership g c = (in_target_inputs g c = in_source_outputs g c)"

text \<open>
  Connection \<open>c\<close> is registered at its own endpoints only: no other item lists it.
\<close>

definition only_at_endpoints :: "'a graph_scheme \<Rightarrow> nat \<Rightarrow> bool" where
  "only_at_endpoints g c =
     (\<forall>k. (c \<in> inputs (items g k) \<longrightarrow> k = inp (conns g c)) \<and>
          (c \<in> outputs (items g k) \<longrightarrow> k = out (conns g c)))"

text \<open>The endpoint \<^verbatim>\<open>set_item\<close> leaves: the argument, or the old one for \<^verbatim>\<open>None\<close>.\<close>

definition new_end :: "nat option \<Rightarrow> nat \<Rightarrow> nat" where
  "new_end new old = (case new of None \<Rightarrow> old | Some i \<Rightarrow> i)"

text \<open>An item with empty directories, and a graph of one unregistered connection \<open>1 \<rightarrow> 2\<close>.\<close>

definition blank_type :: ItemType where
  "blank_type =
     \<lparr>type_id = ''item'', default_dual = None, invert_var = ''0'',
      enable_cmd = (None, []), disable_cmd = (None, []), sec_invert_var = None,
      sec_enable_cmd = None, sec_disable_cmd = None, output_type = DEFAULT\<rparr>"

definition blank_item :: "nat \<Rightarrow> Item" where
  "blank_item e =
     \<lparr>inst = e, item_type = blank_type, ind_panels = {}, ind_toggle = None, antlines = {},
      shape_signs = [], timer = None, outputs = {}, inputs = {}\<rparr>"

definition one_conn_graph :: graph where
  "one_conn_graph =
     \<lparr>items = blank_item,
      conns = (\<lambda>_. \<lparr>inp = 2, out = 1, type = DEFAULT, conn_outputs = []\<rparr>),
      next_item = 3, next_conn = 1\<rparr>"

subsection \<open>\<^verbatim>\<open>ItemType.parse\<close>\<close>

text \<open>
  The configuration block \<^verbatim>\<open>conf\<close> is a \<^verbatim>\<open>Property\<close> of the srctools library, which is
  not among the sources. It is taken as the mapping the module uses it as: the name as
  written (\<^verbatim>\<open>real_name\<close>) and the children's values by their case-folded names.
  \<^verbatim>\<open>conf[key, default]\<close> reads a child or the default, \<^verbatim>\<open>key in conf\<close> tests for a child,
  and \<^verbatim>\<open>conf[key]\<close> raises \<^verbatim>\<open>IndexError\<close> when there is none.
\<close>

record Property =
  real_name :: string
  children :: "string \<rightharpoonup> string"

definition conf_get :: "Property \<Rightarrow> string \<Rightarrow> string \<Rightarrow> string" where
  "conf_get conf key dflt = (case children conf (casefold key) of None \<Rightarrow> dflt | Some v \<Rightarrow> v)"

definition conf_has :: "Property \<Rightarrow> string \<Rightarrow> bool" where
  "conf_has conf key = (children conf (casefold key) \<noteq> None)"

definition conf_index :: "Property \<Rightarrow> string \<Rightarrow> error + string" where
  "conf_index conf key =
     (case children conf (casefold key) of None \<Rightarrow> Inl IndexError | Some v \<Rightarrow> Inr v)"

definition quoted :: "string \<Rightarrow> string" where
  "quoted s = CHR 0x22 # s @ [CHR 0x22]"

text \<open>
  The two messages, \<^verbatim>\<open>'Invalid default type for "{}": {}'\<close> and
  \<^verbatim>\<open>'Invalid output affinity for "{}": {}'\<close>, formatted with a name and a value.
\<close>

definition invalid_default_type :: "string \<Rightarrow> string \<Rightarrow> error" where
  "invalid_default_type name val =
     ValueError (''Invalid default type for '' @ quoted name @ '': '' @ val)"

definition invalid_output_affinity :: "string \<Rightarrow> string \<Rightarrow> error" where
  "invalid_output_affinity name val =
     ValueError (''Invalid output affinity for '' @ quoted name @ '': '' @ val)"

text \<open>
  The secondary fields, lines 154 to 170: the commands, \<^verbatim>\<open>default_dual\<close> and
  \<^verbatim>\<open>sec_invert_var\<close>, all \<^verbatim>\<open>None\<close> when no secondary command is configured. The message of
  the \<^verbatim>\<open>except\<close> branch indexes \<^verbatim>\<open>conf['default_dual']\<close> without a default.
\<close>

definition parse_secondary ::
  "(string \<Rightarrow> cmd) \<Rightarrow> Property \<Rightarrow>
     error + (cmd option \<times> cmd option \<times> ConnType option \<times> string option)" where
  "parse_secondary parse_name conf =
     (if conf_has conf ''sec_enable_cmd'' \<or> conf_has conf ''sec_disable_cmd'' then
        (case ConnType_of (casefold (conf_get conf ''default_dual'' ''default'')) of
           None \<Rightarrow>
             (case conf_index conf ''default_dual'' of
                Inl e \<Rightarrow> Inl e
              | Inr v \<Rightarrow> Inl (invalid_default_type (real_name conf) v))
         | Some dual \<Rightarrow>
             Inr (Some (parse_name (conf_get conf ''sec_enable_cmd'' [])),
                  Some (parse_name (conf_get conf ''sec_disable_cmd'' [])),
                  Some dual,
                  Some (conf_get conf ''sec_invertVar'' ''0'')))
      else Inr (None, None, None, None))"

text \<open>
  \<^verbatim>\<open>ItemType.parse\<close>, with \<^verbatim>\<open>Output.parse_name\<close> (srctools) as a parameter. Lines 147 and
  148 read \<^verbatim>\<open>enable_cmd\<close> and \<^verbatim>\<open>disable_cmd\<close> from the keys \<^verbatim>\<open>sec_enable_cmd\<close> and
  \<^verbatim>\<open>sec_disable_cmd\<close>; the message for a rejected \<^verbatim>\<open>DualType\<close> (line 178) is formatted
  with \<^verbatim>\<open>conf['default_dual']\<close>.
\<close>

definition ItemType_parse :: "(string \<Rightarrow> cmd) \<Rightarrow> Property \<Rightarrow> error + ItemType" where
  "ItemType_parse parse_name conf =
     (let enable = parse_name (conf_get conf ''sec_enable_cmd'' []);
          disable = parse_name (conf_get conf ''sec_disable_cmd'' []);
          invert = conf_get conf ''invertVar'' ''0''
      in case parse_secondary parse_name conf of
           Inl e \<Rightarrow> Inl e
         | Inr (sec_enable, sec_disable, dual, sec_invert) \<Rightarrow>
             (case ConnType_of (casefold (conf_get conf ''DualType'' ''default'')) of
                None \<Rightarrow>
                  (case conf_index conf ''default_dual'' of
                     Inl e \<Rightarrow> Inl e
                   | Inr v \<Rightarrow> Inl (invalid_output_affinity (real_name conf) v))
              | Some affinity \<Rightarrow>
                  Inr \<lparr>type_id = real_name conf, default_dual = dual, invert_var = invert,
                       enable_cmd = enable, disable_cmd = disable,
                       sec_invert_var = sec_invert, sec_enable_cmd = sec_enable,
                       sec_disable_cmd = sec_disable, output_type = affinity\<rparr>))"

text \<open>
  A command name without an instance part, as \<^verbatim>\<open>parse_name\<close> is documented to return it:
  the name itself, with no instance.
\<close>

definition plain_name :: "string \<Rightarrow> cmd" where
  "plain_name s = (None, s)"

text \<open>
  Three configurations: one with primary commands only, one with a token for
  \<^verbatim>\<open>default_dual\<close> that is no connection type and no secondary command, and one with a
  bad \<^verbatim>\<open>DualType\<close> beside a good \<^verbatim>\<open>default_dual\<close>.
\<close>

definition primary_only_conf :: Property where
  "primary_only_conf =
     \<lparr>real_name = ''ITEM_BUTTON'',
      children = [''enable_cmd'' \<mapsto> ''Enable'', ''disable_cmd'' \<mapsto> ''Disable'']\<rparr>"

definition bad_dual_conf :: Property where
  "bad_dual_conf = \<lparr>real_name = ''ITEM_BUTTON'', children = [''default_dual'' \<mapsto> ''bogus'']\<rparr>"

definition bad_affinity_conf :: Property where
  "bad_affinity_conf =
     \<lparr>real_name = ''ITEM_BUTTON'',
      children = [''dualtype'' \<mapsto> ''sideways'', ''default_dual'' \<mapsto> ''primary'']\<rparr>"

definition bad_sec_dual_conf :: Property where
  "bad_sec_dual_conf =
     \<lparr>real_name = ''ITEM_BUTTON'',
      children = [''sec_enable_cmd'' \<mapsto> ''Enable'', ''default_dual'' \<mapsto> ''Bogus'']\<rparr>"

subsection \<open>Entities of the map file\<close>

text \<open>
  The fixup variables are the members of \<^verbatim>\<open>const.FixupVars\<close> the module names, which are
  not among the sources and are taken as distinct names; \<open>Var\<close> is any other variable,
  named by its string. A fixup value is the boolean, integer or string the module stores
  and reads back: \<^verbatim>\<open>fixup.bool\<close> and \<^verbatim>\<open>fixup.int\<close> give \<^verbatim>\<open>False\<close> and \<^verbatim>\<open>0\<close> for a variable
  that is not set (or holds no such value), \<^verbatim>\<open>fixup[...]\<close> gives the empty string.
\<close>

datatype FixupVar = TIM_ENABLED | TIM_DELAY | CONN_COUNT | CONN_COUNT_TBEAM | Var string

datatype fixval = FBool bool | FInt int | FStr string

type_synonym fixups = "FixupVar \<rightharpoonup> fixval"

definition fixup_bool :: "fixups \<Rightarrow> FixupVar \<Rightarrow> bool" where
  "fixup_bool fx v = (case fx v of Some (FBool b) \<Rightarrow> b | _ \<Rightarrow> False)"

definition fixup_int :: "fixups \<Rightarrow> FixupVar \<Rightarrow> int" where
  "fixup_int fx v = (case fx v of Some (FInt n) \<Rightarrow> n | _ \<Rightarrow> 0)"

definition fixup_str :: "fixups \<Rightarrow> FixupVar \<Rightarrow> string" where
  "fixup_str fx v = (case fx v of Some (FStr s) \<Rightarrow> s | _ \<Rightarrow> [])"

text \<open>
  An entity: its keyvalues, fixups and outputs, and what \<^verbatim>\<open>instance_traits\<close> (not among
  the sources) answers for it: the set of traits and the item id.
\<close>

record Entity =
  keys :: "string \<rightharpoonup> string"
  fixup :: fixups
  ent_outputs :: "Output list"
  traits :: "string set"
  item_id :: string

text \<open>\<^verbatim>\<open>ent[key]\<close>: the empty string for a key that is not set.\<close>

definition kv :: "Entity \<Rightarrow> string \<Rightarrow> string" where
  "kv e k = (case keys e k of None \<Rightarrow> [] | Some v \<Rightarrow> v)"

definition set_kv :: "string \<Rightarrow> string \<Rightarrow> Entity \<Rightarrow> Entity" where
  "set_kv k v e = e\<lparr>keys := (keys e)(k \<mapsto> v)\<rparr>"

definition del_kv :: "string \<Rightarrow> Entity \<Rightarrow> Entity" where
  "del_kv k e = e\<lparr>keys := (keys e)(k := None)\<rparr>"

text \<open>
  The state the function works on. The \<^verbatim>\<open>func_instance\<close> entities are only read and
  updated in place: \<open>ents\<close> is their store and \<open>func_instance\<close> lists their addresses in
  the order \<^verbatim>\<open>vmf.by_class['func_instance']\<close> is iterated. The \<^verbatim>\<open>info_overlay\<close> entities
  are also created (\<^verbatim>\<open>vmf.add_ent\<close>): their store is the list \<open>info_overlay\<close>, in
  iteration order, an overlay's address is its position, and a new one goes to the end.
  \<open>ITEMS\<close> is the module's dictionary, in insertion order, from a name to the address of
  an \<^verbatim>\<open>Item\<close>.
\<close>

record scene = graph +
  ents :: "nat \<Rightarrow> Entity"
  func_instance :: "nat list"
  info_overlay :: "Entity list"
  ITEMS :: "(string \<times> nat) list"

text \<open>
  What the function takes from other modules: the item types, the palette of signage
  materials, the two panel instances and the two sets of funnel inputs.
\<close>

record env =
  ITEM_TYPES :: "string \<rightharpoonup> ItemType"
  SIGN_ORDER :: "string list"
  panel_timer :: string
  panel_check :: string
  tbeam_polarity :: "(string option \<times> string) set"
  tbeam_io :: "(string option \<times> string) set"

text \<open>
  \<^verbatim>\<open>d[k].append(v)\<close> on a \<^verbatim>\<open>defaultdict(list)\<close> kept in insertion order, and \<^verbatim>\<open>d[k]\<close>.
\<close>

fun dd_append :: "'k \<Rightarrow> 'v \<Rightarrow> ('k \<times> 'v list) list \<Rightarrow> ('k \<times> 'v list) list" where
  "dd_append k v [] = [(k, [v])]"
| "dd_append k v ((k', vs) # rest) =
     (if k' = k then (k', vs @ [v]) # rest else (k', vs) # dd_append k v rest)"

definition dd_get :: "('k \<times> 'v list) list \<Rightarrow> 'k \<Rightarrow> 'v list" where
  "dd_get d k = (case map_of d k of None \<Rightarrow> [] | Some vs \<Rightarrow> vs)"

subsection \<open>\<^verbatim>\<open>calc_connections\<close>: the scan of the instances\<close>

text \<open>\<^verbatim>\<open>Item(inst, item_type)\<close>, with the constructor's assertion on the name.\<close>

definition Item_init :: "(nat \<Rightarrow> Entity) \<Rightarrow> nat \<Rightarrow> ItemType \<Rightarrow> error + Item" where
  "Item_init es i ty =
     (if kv (es i) ''targetname'' = [] then Inl (AssertionError ''Blank name!'')
      else Inr \<lparr>inst = i, item_type = ty, ind_panels = {}, ind_toggle = None, antlines = {},
                shape_signs = [], timer = None, outputs = {}, inputs = {}\<rparr>)"

definition no_connections_error :: "string \<Rightarrow> error" where
  "no_connections_error item =
     ValueError (''No connections for item '' @ quoted item @
                 '', but connections in the map!'')"

text \<open>The dictionaries \<^verbatim>\<open>toggles\<close> and \<^verbatim>\<open>panels\<close>, from a name to an instance.\<close>

record names =
  toggles :: "string \<rightharpoonup> nat"
  panels :: "string \<rightharpoonup> nat"

text \<open>Lines 340 to 361, over the instances still to scan.\<close>

fun scan_instances ::
  "env \<Rightarrow> nat list \<Rightarrow> names \<times> scene \<Rightarrow> error + (names \<times> scene)" where
  "scan_instances E [] (n, s) = Inr (n, s)"
| "scan_instances E (i # rest) (n, s) =
     (let inst_name = kv (ents s i) ''targetname'' in
      if inst_name = [] then scan_instances E rest (n, s)
      else if ''indicator_toggle'' \<in> traits (ents s i) then
        scan_instances E rest (n\<lparr>toggles := (toggles n)(inst_name \<mapsto> i)\<rparr>, s)
      else if ''indicator_panel'' \<in> traits (ents s i) then
        scan_instances E rest (n\<lparr>panels := (panels n)(inst_name \<mapsto> i)\<rparr>, s)
      else
        (case ITEM_TYPES E (casefold (item_id (ents s i))) of
           None \<Rightarrow> Inl (no_connections_error (item_id (ents s i)))
         | Some ty \<Rightarrow>
             (case Item_init (ents s) i ty of
                Inl e \<Rightarrow> Inl e
              | Inr it \<Rightarrow>
                  scan_instances E rest
                    (n, s\<lparr>items := (items s)(next_item s := it),
                          next_item := Suc (next_item s),
                          ITEMS := AList.update inst_name (next_item s) (ITEMS s)\<rparr>))))"

subsection \<open>\<^verbatim>\<open>calc_connections\<close>: the outputs of an item\<close>

definition endswith :: "string \<Rightarrow> string \<Rightarrow> bool" where
  "endswith s suf = (length suf \<le> length s \<and> drop (length s - length suf) s = suf)"

definition is_model_or_brush :: "string \<Rightarrow> bool" where
  "is_model_or_brush out_name =
     (endswith out_name ''_modelStart'' \<or> endswith out_name ''_modelEnd'' \<or>
      endswith out_name ''_brush'')"

text \<open>The dictionary \<^verbatim>\<open>inputs\<close> of lines 387 to 390: the outputs by target.\<close>

definition group_outputs :: "Output list \<Rightarrow> (string \<times> Output list) list" where
  "group_outputs outs = foldl (\<lambda>d outp. dd_append (target outp) outp d) [] outs"

text \<open>Lines 405 to 411: the timer a panel gives the item.\<close>

definition panel_timer_value :: "Entity \<Rightarrow> int option" where
  "panel_timer_value pan =
     (if fixup_bool (fixup pan) TIM_ENABLED then
        (let tim = fixup_int (fixup pan) TIM_DELAY
         in if \<not> (1 \<le> tim \<and> tim \<le> 30) then None else Some tim)
      else None)"

definition unknown_instance_error :: "string \<Rightarrow> error" where
  "unknown_instance_error out_name = ValueError (quoted out_name @ '' is not a known instance!'')"

text \<open>
  Lines 393 to 416, over the target names still to visit, with the item being built and
  \<^verbatim>\<open>input_items\<close>. \<open>ov\<close> is the dictionary \<^verbatim>\<open>overlays\<close>, from a name to a set of overlays.
\<close>

fun resolve_targets ::
  "names \<Rightarrow> (string \<Rightarrow> nat set) \<Rightarrow> (nat \<Rightarrow> Entity) \<Rightarrow> (string \<times> nat) list \<Rightarrow>
     string list \<Rightarrow> Item \<times> nat list \<Rightarrow> error + (Item \<times> nat list)" where
  "resolve_targets n ov es reg [] (item, input_items) = Inr (item, input_items)"
| "resolve_targets n ov es reg (out_name # rest) (item, input_items) =
     (if is_model_or_brush out_name then resolve_targets n ov es reg rest (item, input_items)
      else
        (case toggles n out_name of
           Some inst_toggle \<Rightarrow>
             resolve_targets n ov es reg rest
               (item\<lparr>antlines := antlines item \<union>
                       ov (fixup_str (fixup (es inst_toggle)) (Var ''indicator_name''))\<rparr>,
                input_items)
         | None \<Rightarrow>
             (case panels n out_name of
                Some pan \<Rightarrow>
                  resolve_targets n ov es reg rest
                    (item\<lparr>ind_panels := insert pan (ind_panels item),
                          timer := panel_timer_value (es pan)\<rparr>,
                     input_items)
              | None \<Rightarrow>
                  (case map_of reg out_name of
                     Some it \<Rightarrow> resolve_targets n ov es reg rest (item, input_items @ [it])
                   | None \<Rightarrow> Inl (unknown_instance_error out_name)))))"

text \<open>
  Lines 418 to 423: every panel of the item gets the instance file and the flag that go
  with the item's timer. The panels form a set and each is updated on its own, so the
  loop is one update of the store.
\<close>

definition desired_panel_inst :: "env \<Rightarrow> Item \<Rightarrow> string" where
  "desired_panel_inst E item = (if timer item = None then panel_check E else panel_timer E)"

definition reconcile_panels :: "env \<Rightarrow> Item \<Rightarrow> (nat \<Rightarrow> Entity) \<Rightarrow> (nat \<Rightarrow> Entity)" where
  "reconcile_panels E item es =
     (\<lambda>p. if p \<in> ind_panels item
          then (set_kv ''file'' (desired_panel_inst E item) (es p))
                 \<lparr>fixup := (fixup (es p))(TIM_ENABLED \<mapsto> FBool (timer item \<noteq> None))\<rparr>
          else es p)"

text \<open>
  Lines 433 to 445: the type of a connection into a funnel, from the outputs in order;
  \<open>None\<close> is the \<^verbatim>\<open>else\<close> of the loop, which raises.
\<close>

fun funnel_type :: "env \<Rightarrow> Output list \<Rightarrow> ConnType option" where
  "funnel_type E [] = None"
| "funnel_type E (outp # rest) =
     (if (inst_in outp, input outp) \<in> tbeam_polarity E then Some TBEAM_DIR
      else if (inst_in outp, input outp) \<in> tbeam_io E then Some TBEAM_IO
      else funnel_type E rest)"

definition funnel_error :: "string \<Rightarrow> error" where
  "funnel_error item =
     ValueError (''Excursion Funnel '' @ quoted item @ '' has inputs, but no valid types!'')"

text \<open>Lines 427 to 445: the type of the connection into \<open>inp_item\<close>.\<close>

definition connection_type :: "env \<Rightarrow> Entity \<Rightarrow> Output list \<Rightarrow> error + ConnType" where
  "connection_type E inp_inst in_outputs =
     (if ''tbeam_emitter'' \<in> traits inp_inst then
        (case funnel_type E in_outputs of
           None \<Rightarrow> Inl (funnel_error (kv inp_inst ''targetname''))
         | Some t \<Rightarrow> Inr t)
      else Inr DEFAULT)"

text \<open>\<^verbatim>\<open>Connection(to_item, from_item, conn_type, outputs)\<close> at the next free address.\<close>

definition new_connection ::
  "nat \<Rightarrow> nat \<Rightarrow> ConnType \<Rightarrow> Output list \<Rightarrow> scene \<Rightarrow> scene" where
  "new_connection to_item from_item t outs s =
     s\<lparr>conns := (conns s)(next_conn s :=
          \<lparr>inp = to_item, out = from_item, type = t, conn_outputs = outs\<rparr>),
       next_conn := Suc (next_conn s)\<rparr>"

text \<open>
  Lines 425 to 453, over the input items still to connect: \<open>item\<close> is the address of the
  item whose outputs are processed, \<open>ins\<close> the dictionary \<^verbatim>\<open>inputs\<close>.
\<close>

fun connect_items ::
  "env \<Rightarrow> (string \<times> Output list) list \<Rightarrow> nat \<Rightarrow> nat list \<Rightarrow> scene \<Rightarrow> error + scene" where
  "connect_items E ins item [] s = Inr s"
| "connect_items E ins item (inp_item # rest) s =
     (let inp_inst = ents s (inst (items s inp_item));
          in_outputs = dd_get ins (kv inp_inst ''targetname'')
      in case connection_type E inp_inst in_outputs of
           Inl e \<Rightarrow> Inl e
         | Inr t \<Rightarrow>
             connect_items E ins item rest
               (add (next_conn s) (new_connection inp_item item t in_outputs s)))"

text \<open>Lines 386 to 453 for the item at address \<open>item\<close>.\<close>

definition process_item ::
  "env \<Rightarrow> names \<Rightarrow> (string \<Rightarrow> nat set) \<Rightarrow> nat \<Rightarrow> scene \<Rightarrow> error + scene" where
  "process_item E n ov item s =
     (let ins = group_outputs (ent_outputs (ents s (inst (items s item))))
      in case resolve_targets n ov (ents s) (ITEMS s) (map fst ins) (items s item, []) of
           Inl e \<Rightarrow> Inl e
         | Inr (item', input_items) \<Rightarrow>
             connect_items E ins item input_items
               (s\<lparr>items := (items s)(item := item'),
                  ents := reconcile_panels E item' (ents s)\<rparr>))"

text \<open>Line 385: the loop over \<^verbatim>\<open>ITEMS.values()\<close>.\<close>

fun build_edges ::
  "env \<Rightarrow> names \<Rightarrow> (string \<Rightarrow> nat set) \<Rightarrow> nat list \<Rightarrow> scene \<Rightarrow> error + scene" where
  "build_edges E n ov [] s = Inr s"
| "build_edges E n ov (item # rest) s =
     (case process_item E n ov item s of
        Inl e \<Rightarrow> Inl e
      | Inr s' \<Rightarrow> build_edges E n ov rest s')"

subsection \<open>\<^verbatim>\<open>calc_connections\<close>: the connection counts\<close>

text \<open>The two sums of lines 460 and 467 over the inputs of an item.\<close>

definition count_inputs :: "scene \<Rightarrow> Item \<Rightarrow> int" where
  "count_inputs s item = int (card {c \<in> inputs item. type (conns s c) \<noteq> TBEAM_DIR})"

definition count_tbeam_inputs :: "scene \<Rightarrow> Item \<Rightarrow> int" where
  "count_tbeam_inputs s item = int (card {c \<in> inputs item. type (conns s c) = TBEAM_DIR})"

definition set_fixup :: "FixupVar \<Rightarrow> fixval \<Rightarrow> Entity \<Rightarrow> Entity" where
  "set_fixup v x e = e\<lparr>fixup := (fixup e)(v \<mapsto> x)\<rparr>"

text \<open>Lines 458 to 471 for the item at address \<open>item\<close>.\<close>

definition fix_counts_item :: "nat \<Rightarrow> scene \<Rightarrow> scene" where
  "fix_counts_item item s =
     (let it = items s item;
          s1 = (if fixup (ents s (inst it)) CONN_COUNT \<noteq> None
                then s\<lparr>ents := (ents s)(inst it :=
                       set_fixup CONN_COUNT (FInt (count_inputs s it)) (ents s (inst it)))\<rparr>
                else s)
      in if fixup (ents s1 (inst it)) CONN_COUNT_TBEAM \<noteq> None
         then s1\<lparr>ents := (ents s1)(inst it :=
                set_fixup CONN_COUNT_TBEAM (FInt (count_tbeam_inputs s1 it)) (ents s1 (inst it)))\<rparr>
         else s1)"

definition fix_counts :: "scene \<Rightarrow> scene" where
  "fix_counts s = fold fix_counts_item (map snd (ITEMS s)) s"

subsection \<open>\<^verbatim>\<open>calc_connections\<close>: signage\<close>

text \<open>
  \<^verbatim>\<open>SIGN_ORDER_LOOKUP\<close>, the dictionary from a material of the palette to its index: where a
  material is listed twice the later entry of the comprehension stays.
\<close>

definition SIGN_ORDER_LOOKUP :: "env \<Rightarrow> string \<rightharpoonup> nat" where
  "SIGN_ORDER_LOOKUP E =
     map_of (rev (map (\<lambda>(i, sign). (sign, i)) (List.enumerate 0 (SIGN_ORDER E))))"

text \<open>\<^verbatim>\<open>ShapeSignage\<close>: the overlays and the frames are addresses of overlays.\<close>

record ShapeSignage =
  overlays :: "nat list"
  name :: string
  index :: nat
  repeat_group :: nat
  overlay_frames :: "nat list"

text \<open>
  Lines 363 to 370, over the overlays still to scan: the dictionary
  \<^verbatim>\<open>sign_shape_overlays\<close> and the dictionary \<^verbatim>\<open>overlays\<close> of the antlines.
\<close>

fun scan_overlays ::
  "env \<Rightarrow> Entity list \<Rightarrow> nat list \<Rightarrow>
     ((string \<times> string) \<times> nat list) list \<times> (string \<Rightarrow> nat set) \<Rightarrow>
     ((string \<times> string) \<times> nat list) list \<times> (string \<Rightarrow> nat set)" where
  "scan_overlays E ovs [] (signs, ov) = (signs, ov)"
| "scan_overlays E ovs (over # rest) (signs, ov) =
     (let nm = kv (ovs ! over) ''targetname'';
          mat = kv (ovs ! over) ''material''
      in if SIGN_ORDER_LOOKUP E mat \<noteq> None
         then scan_overlays E ovs rest (dd_append (nm, casefold mat) over signs, ov)
         else scan_overlays E ovs rest (signs, ov(nm := insert over (ov nm))))"

text \<open>The loop of lines 90 and 91 of the constructor, deleting the names.\<close>

definition del_targetnames :: "nat list \<Rightarrow> Entity list \<Rightarrow> Entity list" where
  "del_targetnames os ovs = fold (\<lambda>i l. l[i := del_kv ''targetname'' (l ! i)]) os ovs"

text \<open>\<^verbatim>\<open>ShapeSignage(overlays)\<close>: the new object and the overlay store it leaves.\<close>

definition ShapeSignage_init ::
  "env \<Rightarrow> nat list \<Rightarrow> Entity list \<Rightarrow> error + (ShapeSignage \<times> Entity list)" where
  "ShapeSignage_init E os ovs =
     (case os of
        [] \<Rightarrow> Inl (ValueError ''No overlays'')
      | first # _ \<Rightarrow>
          (case SIGN_ORDER_LOOKUP E (kv (ovs ! first) ''material'') of
             None \<Rightarrow> Inl (KeyError (kv (ovs ! first) ''material''))
           | Some i \<Rightarrow>
               Inr (\<lparr>overlays = os, name = kv (ovs ! first) ''targetname'', index = i,
                     repeat_group = 0, overlay_frames = []\<rparr>,
                    del_targetnames os ovs)))"

text \<open>
  Lines 376 to 382, over the entries of \<^verbatim>\<open>sign_shape_overlays\<close> still to visit, building
  \<^verbatim>\<open>sign_shape_by_index\<close>. The dictionary \<^verbatim>\<open>sign_shapes\<close> is filled beside it and never read,
  so the shapes are kept by index only.
\<close>

fun make_shapes ::
  "env \<Rightarrow> ((string \<times> string) \<times> nat list) list \<Rightarrow>
     Entity list \<times> (nat \<times> ShapeSignage list) list \<Rightarrow>
     error + (Entity list \<times> (nat \<times> ShapeSignage list) list)" where
  "make_shapes E [] (ovs, by_index) = Inr (ovs, by_index)"
| "make_shapes E ((key, sign_pair) # rest) (ovs, by_index) =
     (case ShapeSignage_init E sign_pair ovs of
        Inl e \<Rightarrow> Inl e
      | Inr (shape, ovs') \<Rightarrow>
          make_shapes E rest (ovs', dd_append (index shape) shape by_index))"

text \<open>
  Lines 485 to 490, over the overlays of a shape still to copy: each copy gets the frame
  material and render order 1, goes to the end of the store, and its address to the end
  of the shape's frames.
\<close>

definition make_frame :: "string \<Rightarrow> Entity \<Rightarrow> Entity" where
  "make_frame frame_mat overlay = set_kv ''renderorder'' ''1'' (set_kv ''material'' frame_mat overlay)"

fun frame_overlays ::
  "string \<Rightarrow> nat list \<Rightarrow> Entity list \<times> nat list \<Rightarrow> Entity list \<times> nat list" where
  "frame_overlays frame_mat [] (ovs, frames) = (ovs, frames)"
| "frame_overlays frame_mat (overlay # rest) (ovs, frames) =
     frame_overlays frame_mat rest
       (ovs @ [make_frame frame_mat (ovs ! overlay)], frames @ [length ovs])"

text \<open>
  Lines 479 to 490, over the shapes of one material still to number, from position \<open>i\<close>
  on; \<open>tex\<close> is the list of frame materials without its empty entries.
\<close>

fun frame_shapes ::
  "string list \<Rightarrow> nat \<Rightarrow> ShapeSignage list \<Rightarrow> Entity list \<Rightarrow>
     Entity list \<times> ShapeSignage list" where
  "frame_shapes tex i [] ovs = (ovs, [])"
| "frame_shapes tex i (shape # rest) ovs =
     (if i = 0 then
        (let (ovs', rest') = frame_shapes tex (Suc i) rest ovs
         in (ovs', shape\<lparr>repeat_group := i\<rparr> # rest'))
      else
        (let frame_mat = tex ! ((i - 1) mod length tex);
             (ovs1, frames) = frame_overlays frame_mat (overlays shape) (ovs, overlay_frames shape);
             (ovs', rest') = frame_shapes tex (Suc i) rest ovs1
         in (ovs', shape\<lparr>repeat_group := i, overlay_frames := frames\<rparr> # rest')))"

text \<open>Lines 476 to 490, over the materials still to visit: sort by name, then number.\<close>

fun frame_groups ::
  "string list \<Rightarrow> (nat \<times> ShapeSignage list) list \<Rightarrow> Entity list \<Rightarrow>
     Entity list \<times> (nat \<times> ShapeSignage list) list" where
  "frame_groups tex [] ovs = (ovs, [])"
| "frame_groups tex ((i, shape_mat) # rest) ovs =
     (let (ovs1, shape_mat') = frame_shapes tex 0 (sort_key name shape_mat) ovs;
          (ovs', rest') = frame_groups tex rest ovs1
      in (ovs', (i, shape_mat') # rest'))"

text \<open>Lines 474 to 490.\<close>

definition make_frames ::
  "string list \<Rightarrow> bool \<Rightarrow> Entity list \<times> (nat \<times> ShapeSignage list) list \<Rightarrow>
     Entity list \<times> (nat \<times> ShapeSignage list) list" where
  "make_frames shape_frame_tex enable_shape_frame st =
     (let tex = filter (\<lambda>mat. mat \<noteq> []) shape_frame_tex
      in if tex \<noteq> [] \<and> enable_shape_frame
         then frame_groups tex (snd st) (fst st)
         else st)"

text \<open>
  The signage of a map: lines 363 to 382 and 474 to 490, which read and write the overlays
  only.
\<close>

definition sign_shapes ::
  "env \<Rightarrow> Entity list \<Rightarrow> error + (Entity list \<times> (nat \<times> ShapeSignage list) list)" where
  "sign_shapes E ovs =
     make_shapes E (fst (scan_overlays E ovs [0..<length ovs] ([], \<lambda>_. {}))) (ovs, [])"

subsection \<open>\<^verbatim>\<open>calc_connections\<close>\<close>

text \<open>
  The whole function: the scan of the instances, the scan of the overlays, the shapes,
  the edges, the counts and the frames. It returns nothing; the result here is the state
  it leaves, with the local \<^verbatim>\<open>sign_shape_by_index\<close>.
\<close>

definition calc_connections ::
  "env \<Rightarrow> string list \<Rightarrow> bool \<Rightarrow> scene \<Rightarrow>
     error + (scene \<times> (nat \<times> ShapeSignage list) list)" where
  "calc_connections E shape_frame_tex enable_shape_frame s0 =
     (case scan_instances E (func_instance s0)
             (\<lparr>toggles = Map.empty, panels = Map.empty\<rparr>, s0) of
        Inl e \<Rightarrow> Inl e
      | Inr (n, s1) \<Rightarrow>
          (let ov = snd (scan_overlays E (info_overlay s1)
                           [0..<length (info_overlay s1)] ([], \<lambda>_. {}))
           in case sign_shapes E (info_overlay s1) of
                Inl e \<Rightarrow> Inl e
              | Inr (ovs, by_index) \<Rightarrow>
                  (case build_edges E n ov (map snd (ITEMS s1)) (s1\<lparr>info_overlay := ovs\<rparr>) of
                     Inl e \<Rightarrow> Inl e
                   | Inr s2 \<Rightarrow>
                       (let s3 = fix_counts s2;
                            (ovs', by_index') =
                              make_frames shape_frame_tex enable_shape_frame
                                (info_overlay s3, by_index)
                        in Inr (s3\<lparr>info_overlay := ovs'\<rparr>, by_index')))))"

text \<open>
  The state of a freshly imported module (\<^verbatim>\<open>ITEMS = {}\<close>, no item and no connection yet) with
  the entities of a map file.
\<close>

definition fresh_scene :: "(nat \<Rightarrow> Entity) \<Rightarrow> nat list \<Rightarrow> Entity list \<Rightarrow> scene" where
  "fresh_scene es insts ovs =
     \<lparr>items = blank_item,
      conns = (\<lambda>_. \<lparr>inp = 0, out = 0, type = DEFAULT, conn_outputs = []\<rparr>),
      next_item = 0, next_conn = 0,
      ents = es, func_instance = insts, info_overlay = ovs, ITEMS = []\<rparr>"

subsection \<open>Example maps\<close>

text \<open>
  An environment with two item types, a palette of three shapes, and the funnel's
  polarity and on/off inputs.
\<close>

definition example_env :: env where
  "example_env =
     \<lparr>ITEM_TYPES = [''item_reverser'' \<mapsto> blank_type, ''item_tbeam'' \<mapsto> blank_type],
      SIGN_ORDER = [''signage/shape01'', ''signage/shape02'', ''signage/shape03''],
      panel_timer = ''ind_timer.vmf'', panel_check = ''ind_check.vmf'',
      tbeam_polarity = {(Some ''tbeam'', ''SetPolarityOn''), (Some ''tbeam'', ''SetPolarityOff'')},
      tbeam_io = {(None, ''Enable''), (None, ''Disable'')}\<rparr>"

definition no_entity :: Entity where
  "no_entity = \<lparr>keys = Map.empty, fixup = Map.empty, ent_outputs = [], traits = {}, item_id = []\<rparr>"

definition named_item :: "string \<Rightarrow> string \<Rightarrow> Output list \<Rightarrow> Entity" where
  "named_item nm kind outs =
     \<lparr>keys = [''targetname'' \<mapsto> nm], fixup = Map.empty, ent_outputs = outs, traits = {},
      item_id = kind\<rparr>"

definition panel_entity :: "string \<Rightarrow> bool \<Rightarrow> int \<Rightarrow> Entity" where
  "panel_entity nm enabled delay =
     \<lparr>keys = [''targetname'' \<mapsto> nm, ''file'' \<mapsto> ''ind_check.vmf''],
      fixup = [TIM_ENABLED \<mapsto> FBool enabled, TIM_DELAY \<mapsto> FInt delay],
      ent_outputs = [], traits = {''indicator_panel''}, item_id = []\<rparr>"

definition output_to :: "string \<Rightarrow> Output" where
  "output_to nm = \<lparr>target = nm, inst_in = None, input = ''Start''\<rparr>"





text \<open>
  An item with outputs to two panels: first one that is no timer, then a timer of delay 5.
\<close>

definition two_panel_scene :: scene where
  "two_panel_scene =
     fresh_scene
       ((\<lambda>_. no_entity)
          (0 := named_item ''button'' ''ITEM_REVERSER'' [output_to ''pan_a'', output_to ''pan_b''],
           1 := panel_entity ''pan_a'' False 0,
           2 := panel_entity ''pan_b'' True 5))
       [0, 1, 2] []"


subsection \<open>Notions used to state the properties\<close>

text \<open>
  The target names of an item's outputs, in the order the loop of line 393 visits them:
  each name once, in the order of its first output.
\<close>

definition item_targets :: "scene \<Rightarrow> nat \<Rightarrow> string list" where
  "item_targets s item = map fst (group_outputs (ent_outputs (ents s (inst (items s item)))))"

text \<open>
  A target name the loop cannot resolve: no model or brush name, no toggle, no panel and
  no registered item.
\<close>

definition unknown_target :: "names \<Rightarrow> (string \<times> nat) list \<Rightarrow> string \<Rightarrow> bool" where
  "unknown_target n reg nm =
     (\<not> is_model_or_brush nm \<and> toggles n nm = None \<and> panels n nm = None \<and>
      map_of reg nm = None)"

text \<open>The panels among a list of target names, in that order.\<close>

definition panel_targets :: "names \<Rightarrow> string list \<Rightarrow> nat list" where
  "panel_targets n nms =
     List.map_filter
       (\<lambda>nm. if is_model_or_brush nm \<or> toggles n nm \<noteq> None then None else panels n nm) nms"

text \<open>A timer is \<^verbatim>\<open>None\<close> or an integer from 1 to 30.\<close>

definition timer_ok :: "int option \<Rightarrow> bool" where
  "timer_ok t = (case t of None \<Rightarrow> True | Some d \<Rightarrow> 1 \<le> d \<and> d \<le> 30)"

text \<open>
  The dictionaries and the state after the scan of the instances of \<open>s0\<close>, where the scan
  succeeds; \<open>no_names\<close> are the empty dictionaries the scan starts from.
\<close>

definition no_names :: names where
  "no_names = \<lparr>toggles = Map.empty, panels = Map.empty\<rparr>"

definition scanned :: "env \<Rightarrow> scene \<Rightarrow> names \<times> scene" where
  "scanned E s0 = projr (scan_instances E (func_instance s0) (no_names, s0))"

text \<open>
  An instance the scan takes for a normal item: it has a name and is neither a toggle nor a
  panel. \<open>item_named es nm i\<close>: instance \<open>i\<close> is such an item and its name is \<open>nm\<close>.
\<close>

definition is_item :: "(nat \<Rightarrow> Entity) \<Rightarrow> nat \<Rightarrow> bool" where
  "is_item es i =
     (kv (es i) ''targetname'' \<noteq> [] \<and> ''indicator_toggle'' \<notin> traits (es i) \<and>
      ''indicator_panel'' \<notin> traits (es i))"

definition item_named :: "(nat \<Rightarrow> Entity) \<Rightarrow> string \<Rightarrow> nat \<Rightarrow> bool" where
  "item_named es nm i = (is_item es i \<and> kv (es i) ''targetname'' = nm)"

text \<open>Every item instance of the list has a registered item type.\<close>

definition types_known :: "env \<Rightarrow> (nat \<Rightarrow> Entity) \<Rightarrow> nat list \<Rightarrow> bool" where
  "types_known E es insts =
     list_all (\<lambda>i. is_item es i \<longrightarrow> ITEM_TYPES E (casefold (item_id (es i))) \<noteq> None) insts"

text \<open>The instance registered under a name: that of the item \<^verbatim>\<open>ITEMS[nm]\<close>.\<close>

definition registered_inst :: "scene \<Rightarrow> string \<Rightarrow> nat option" where
  "registered_inst s nm = map_option (\<lambda>v. inst (items s v)) (map_of (ITEMS s) nm)"

text \<open>The addresses in \<^verbatim>\<open>ITEMS\<close> are addresses of items that exist.\<close>

definition registry_ok :: "scene \<Rightarrow> bool" where
  "registry_ok s = list_all (\<lambda>e. snd e < next_item s) (ITEMS s)"

text \<open>Two items of the same name \<^verbatim>\<open>twin\<close>, the first with an output to a third item.\<close>

definition twin_scene :: scene where
  "twin_scene =
     fresh_scene
       ((\<lambda>_. no_entity)
          (0 := named_item ''twin'' ''ITEM_REVERSER'' [output_to ''door''],
           1 := named_item ''twin'' ''ITEM_TBEAM'' [],
           2 := named_item ''door'' ''ITEM_REVERSER'' [output_to ''twin'']))
       [0, 1, 2] []"

text \<open>
  The counts of the item at address \<open>item\<close> are right: each of the two count variables its
  instance has holds the number it is to hold.
\<close>

definition counts_fixed :: "scene \<Rightarrow> nat \<Rightarrow> bool" where
  "counts_fixed s item =
     ((fixup (ents s (inst (items s item))) CONN_COUNT \<noteq> None \<longrightarrow>
         fixup (ents s (inst (items s item))) CONN_COUNT =
           Some (FInt (count_inputs s (items s item)))) \<and>
      (fixup (ents s (inst (items s item))) CONN_COUNT_TBEAM \<noteq> None \<longrightarrow>
         fixup (ents s (inst (items s item))) CONN_COUNT_TBEAM =
           Some (FInt (count_tbeam_inputs s (items s item)))))"

text \<open>
  An item \<^verbatim>\<open>button\<close> with an output to the item \<^verbatim>\<open>door\<close>, whose instance has both count
  variables, set to 7.
\<close>

definition counted_scene :: scene where
  "counted_scene =
     fresh_scene
       ((\<lambda>_. no_entity)
          (0 := named_item ''button'' ''ITEM_REVERSER'' [output_to ''door''],
           1 := (named_item ''door'' ''ITEM_REVERSER'' [])
                  \<lparr>fixup := [CONN_COUNT \<mapsto> FInt 7, CONN_COUNT_TBEAM \<mapsto> FInt 7]\<rparr>))
       [0, 1] []"

text \<open>
  What the frame pass is to leave for the shape at position \<open>p\<close> of its sorted group:
  the repeat group \<open>p\<close>; no frame at position 0; otherwise one frame per overlay, each a
  new entity of the store \<open>ovs'\<close> that copies the overlay of the store \<open>ovs\<close> with the frame
  material at \<open>(p - 1) mod length tex\<close> and render order 1.
\<close>

definition frames_of :: "string list \<Rightarrow> Entity list \<Rightarrow> Entity list \<Rightarrow> nat \<Rightarrow> ShapeSignage \<Rightarrow> bool" where
  "frames_of tex ovs ovs' p shape =
     (repeat_group shape = p \<and>
      (if p = 0 then overlay_frames shape = []
       else length (overlay_frames shape) = length (overlays shape) \<and>
            (\<forall>k < length (overlays shape).
               length ovs \<le> overlay_frames shape ! k \<and>
               overlay_frames shape ! k < length ovs' \<and>
               ovs' ! (overlay_frames shape ! k) =
                 make_frame (tex ! ((p - 1) mod length tex)) (ovs ! (overlays shape ! k)))))"

text \<open>
  A shape as the constructor leaves it, over a store \<open>ovs\<close>: not numbered, without
  frames, and with overlays that are entities of the store.
\<close>

definition new_shape :: "Entity list \<Rightarrow> ShapeSignage \<Rightarrow> bool" where
  "new_shape ovs shape =
     (repeat_group shape = 0 \<and> overlay_frames shape = [] \<and> overlays shape \<noteq> [] \<and>
      list_all (\<lambda>overlay. overlay < length ovs) (overlays shape))"

text \<open>
  What the frame pass is to make of the shapes \<open>g\<close> of one material: the shapes sorted by
  name, each with its overlays, name and index, numbered and framed by its position.
\<close>

definition group_framed ::
  "string list \<Rightarrow> Entity list \<Rightarrow> Entity list \<Rightarrow> ShapeSignage list \<Rightarrow> ShapeSignage list \<Rightarrow> bool" where
  "group_framed tex ovs ovs' g g' =
     (length g' = length g \<and>
      (\<forall>p < length g.
         overlays (g' ! p) = overlays (sort_key name g ! p) \<and>
         name (g' ! p) = name (sort_key name g ! p) \<and>
         index (g' ! p) = index (sort_key name g ! p) \<and>
         frames_of tex ovs ovs' p (g' ! p)))"

section \<open>Properties\<close>

subsection \<open>The directories of a connection\<close>

lemma conns_add [simp]: "conns (add c g) = conns g"
  by (simp add: add_def)

lemma conns_remove [simp]: "conns (remove c g) = conns g"
  by (simp add: remove_def)

lemma items_set_inp [simp]: "items (set_inp c n g) = items g"
  by (simp add: set_inp_def split: option.splits)

lemma items_set_out [simp]: "items (set_out c n g) = items g"
  by (simp add: set_out_def split: option.splits)

lemma inputs_after_add:
  "c' \<in> inputs (items (add c g) k) \<longleftrightarrow>
     c' \<in> inputs (items g k) \<or> (c' = c \<and> k = inp (conns g c))"
  by (auto simp add: add_def inputs_add_def outputs_add_def)

lemma outputs_after_add:
  "c' \<in> outputs (items (add c g) k) \<longleftrightarrow>
     c' \<in> outputs (items g k) \<or> (c' = c \<and> k = out (conns g c))"
  by (auto simp add: add_def inputs_add_def outputs_add_def)

lemma inputs_after_remove:
  "c' \<in> inputs (items (remove c g) k) \<longleftrightarrow>
     c' \<in> inputs (items g k) \<and> \<not> (c' = c \<and> k = inp (conns g c))"
  by (auto simp add: remove_def inputs_discard_def outputs_discard_def)

lemma outputs_after_remove:
  "c' \<in> outputs (items (remove c g) k) \<longleftrightarrow>
     c' \<in> outputs (items g k) \<and> \<not> (c' = c \<and> k = out (conns g c))"
  by (auto simp add: remove_def inputs_discard_def outputs_discard_def)

lemma inp_after_set_item:
  "inp (conns (set_item c i o' g) c') =
     (if c' = c then new_end i (inp (conns g c)) else inp (conns g c'))"
  by (simp add: set_item_def set_inp_def set_out_def new_end_def split: option.splits)

lemma out_after_set_item:
  "out (conns (set_item c i o' g) c') =
     (if c' = c then new_end o' (out (conns g c)) else out (conns g c'))"
  by (simp add: set_item_def set_inp_def set_out_def new_end_def split: option.splits)

lemma inputs_after_set_item:
  "c' \<in> inputs (items (set_item c i o' g) k) \<longleftrightarrow>
     (if c' = c
      then k = new_end i (inp (conns g c)) \<or> (c \<in> inputs (items g k) \<and> k \<noteq> inp (conns g c))
      else c' \<in> inputs (items g k))"
  by (auto simp add: set_item_def inputs_after_add inputs_after_remove set_inp_def set_out_def
      new_end_def split: option.splits)

lemma outputs_after_set_item:
  "c' \<in> outputs (items (set_item c i o' g) k) \<longleftrightarrow>
     (if c' = c
      then k = new_end o' (out (conns g c)) \<or> (c \<in> outputs (items g k) \<and> k \<noteq> out (conns g c))
      else c' \<in> outputs (items g k))"
  by (auto simp add: set_item_def outputs_after_add outputs_after_remove set_inp_def set_out_def
      new_end_def split: option.splits)

lemmas directory_simps =
  inputs_after_add outputs_after_add inputs_after_remove outputs_after_remove
  inp_after_set_item out_after_set_item inputs_after_set_item outputs_after_set_item

lemma dual_membership_step:
  assumes "dual_membership g c'"
  shows "dual_membership (apply_conn_op x g) c'"
proof (cases x)
  case (Add c)
  with assms show ?thesis
    by (auto simp add: dual_membership_def in_target_inputs_def in_source_outputs_def
        inputs_after_add outputs_after_add)
next
  case (Remove c)
  with assms show ?thesis
    by (auto simp add: dual_membership_def in_target_inputs_def in_source_outputs_def
        inputs_after_remove outputs_after_remove)
next
  case (SetItem c i o')
  with assms show ?thesis
    by (simp add: dual_membership_def in_target_inputs_def in_source_outputs_def
        directory_simps)
qed

lemma only_at_endpoints_step:
  assumes "only_at_endpoints g c'"
  shows "only_at_endpoints (apply_conn_op x g) c'"
proof (cases x)
  case (Add c)
  with assms show ?thesis
    by (auto simp add: only_at_endpoints_def inputs_after_add outputs_after_add)
next
  case (Remove c)
  with assms show ?thesis
    by (auto simp add: only_at_endpoints_def inputs_after_remove outputs_after_remove)
next
  case (SetItem c i o')
  with assms show ?thesis
    by (auto simp add: only_at_endpoints_def directory_simps)
qed

lemma registered_run:
  "dual_membership g c \<Longrightarrow> only_at_endpoints g c \<Longrightarrow>
     dual_membership (run_conn_ops xs g) c \<and> only_at_endpoints (run_conn_ops xs g) c"
  by (induction xs arbitrary: g) (simp_all add: dual_membership_step only_at_endpoints_step)

text \<open>
  Claim C1. After \<^verbatim>\<open>add\<close> a connection is in the inputs of its target and in the outputs of
  its source; after \<^verbatim>\<open>remove\<close> it is in neither; after \<^verbatim>\<open>set_item\<close> it is in both
  directories of the new endpoints and in none of an endpoint that was replaced. Every
  program over the three operations keeps a connection that is in both or in neither of
  its endpoints' directories, and in no other item's, that way.
\<close>

theorem connection_membership_dual:
  "(in_target_inputs (add c g) c \<and> in_source_outputs (add c g) c) \<and>
   (\<not> in_target_inputs (remove c g) c \<and> \<not> in_source_outputs (remove c g) c) \<and>
   (inp (conns (set_item c i o' g) c) = new_end i (inp (conns g c)) \<and>
    out (conns (set_item c i o' g) c) = new_end o' (out (conns g c)) \<and>
    in_target_inputs (set_item c i o' g) c \<and> in_source_outputs (set_item c i o' g) c \<and>
    (new_end i (inp (conns g c)) \<noteq> inp (conns g c) \<longrightarrow>
       c \<notin> inputs (items (set_item c i o' g) (inp (conns g c)))) \<and>
    (new_end o' (out (conns g c)) \<noteq> out (conns g c) \<longrightarrow>
       c \<notin> outputs (items (set_item c i o' g) (out (conns g c))))) \<and>
   (dual_membership g c \<and> only_at_endpoints g c \<longrightarrow>
      dual_membership (run_conn_ops xs g) c \<and> only_at_endpoints (run_conn_ops xs g) c)"
proof -
  have a: "in_target_inputs (add c g) c \<and> in_source_outputs (add c g) c"
    by (simp add: in_target_inputs_def in_source_outputs_def inputs_after_add outputs_after_add)
  have r: "\<not> in_target_inputs (remove c g) c \<and> \<not> in_source_outputs (remove c g) c"
    by (simp add: in_target_inputs_def in_source_outputs_def inputs_after_remove
        outputs_after_remove)
  have s: "in_target_inputs (set_item c i o' g) c \<and> in_source_outputs (set_item c i o' g) c"
    by (simp add: in_target_inputs_def in_source_outputs_def directory_simps)
  have old_in: "new_end i (inp (conns g c)) \<noteq> inp (conns g c) \<longrightarrow>
      c \<notin> inputs (items (set_item c i o' g) (inp (conns g c)))"
    by (auto simp add: inputs_after_set_item)
  have old_out: "new_end o' (out (conns g c)) \<noteq> out (conns g c) \<longrightarrow>
      c \<notin> outputs (items (set_item c i o' g) (out (conns g c)))"
    by (auto simp add: outputs_after_set_item)
  from a r s old_in old_out registered_run [of g c xs] show ?thesis
    by (simp add: inp_after_set_item out_after_set_item)
qed

text \<open>
  The theorem at the graph of one connection \<open>1 \<rightarrow> 2\<close>, registered and then moved to the
  target \<open>5\<close>: it has left the inputs of item 2.
\<close>

theorem connection_membership_dual_witness:
  "dual_membership one_conn_graph 0 \<and> only_at_endpoints one_conn_graph 0 \<and>
   new_end (Some 5) (inp (conns (add 0 one_conn_graph) 0)) \<noteq> inp (conns (add 0 one_conn_graph) 0) \<and>
   0 \<in> inputs (items (add 0 one_conn_graph) 2) \<and>
   0 \<notin> inputs (items (set_item 0 (Some 5) None (add 0 one_conn_graph)) 2) \<and>
   in_target_inputs (set_item 0 (Some 5) None (add 0 one_conn_graph)) 0 \<and>
   dual_membership (run_conn_ops [Add 0, SetItem 0 (Some 5) None, Remove 0] one_conn_graph) 0"
proof -
  have d: "dual_membership one_conn_graph 0 \<and> only_at_endpoints one_conn_graph 0"
    by (simp add: dual_membership_def only_at_endpoints_def in_target_inputs_def
        in_source_outputs_def one_conn_graph_def blank_item_def)
  have n: "new_end (Some 5) (inp (conns (add 0 one_conn_graph) 0)) \<noteq>
      inp (conns (add 0 one_conn_graph) 0)"
    by (simp add: new_end_def one_conn_graph_def)
  have m: "0 \<in> inputs (items (add 0 one_conn_graph) 2)"
    by (simp add: inputs_after_add one_conn_graph_def)
  have i2: "inp (conns (add 0 one_conn_graph) 0) = 2"
    by (simp add: one_conn_graph_def)
  from connection_membership_dual
    [of 0 "add 0 one_conn_graph" "Some 5" None "[]"]
  have "0 \<notin> inputs (items (set_item 0 (Some 5) None (add 0 one_conn_graph)) 2) \<and>
      in_target_inputs (set_item 0 (Some 5) None (add 0 one_conn_graph)) 0"
    using n i2 by simp
  moreover from connection_membership_dual
    [of 0 one_conn_graph None None "[Add 0, SetItem 0 (Some 5) None, Remove 0]"] d
  have "dual_membership
      (run_conn_ops [Add 0, SetItem 0 (Some 5) None, Remove 0] one_conn_graph) 0"
    by blast
  ultimately show ?thesis
    using d n m by blast
qed

subsection \<open>\<^verbatim>\<open>ItemType.parse\<close>\<close>

lemma ConnType_of_None:
  "ConnType_of s = None \<longleftrightarrow> s \<notin> {''default'', ''primary'', ''secondary'', ''both''}"
  by (simp add: ConnType_of_def)

lemma casefold_keys [simp]:
  "casefold ''sec_enable_cmd'' = ''sec_enable_cmd''"
  "casefold ''sec_disable_cmd'' = ''sec_disable_cmd''"
  "casefold ''default_dual'' = ''default_dual''"
  "casefold ''DualType'' = ''dualtype''"
  "casefold ''invertVar'' = ''invertvar''"
  "casefold ''sec_invertVar'' = ''sec_invertvar''"
  "casefold ''default'' = ''default''"
  by (simp_all add: casefold_def casefold_char_def)

lemma parse_primary_from_secondary_keys:
  assumes "ItemType_parse parse_name conf = Inr it"
  shows "enable_cmd it = parse_name (conf_get conf ''sec_enable_cmd'' [])"
    and "disable_cmd it = parse_name (conf_get conf ''sec_disable_cmd'' [])"
  using assms
  by (auto simp add: ItemType_parse_def Let_def split: sum.splits prod.splits option.splits)

text \<open>
  Claim C5. The primary command pair of the parsed type is to come from the primary
  entries of the configuration. For a configuration whose only entries are
  \<^verbatim>\<open>enable_cmd = Enable\<close> and \<^verbatim>\<open>disable_cmd = Disable\<close> the parsed type has the pair that
  \<^verbatim>\<open>parse_name\<close> gives for the empty string: lines 147 and 148 read the secondary keys.
\<close>

theorem parse_ignores_primary_commands:
  "ItemType_parse plain_name primary_only_conf =
     Inr \<lparr>type_id = ''ITEM_BUTTON'', default_dual = None, invert_var = ''0'',
          enable_cmd = plain_name [], disable_cmd = plain_name [], sec_invert_var = None,
          sec_enable_cmd = None, sec_disable_cmd = None, output_type = DEFAULT\<rparr>"
  by (simp add: ItemType_parse_def parse_secondary_def conf_get_def conf_has_def
      primary_only_conf_def ConnType_of_def)

text \<open>
  Claim C6, as stated, fails: a \<^verbatim>\<open>default_dual\<close> token that is no connection type is
  accepted when no secondary command is configured, since \<^verbatim>\<open>default_dual\<close> is read under
  \<^verbatim>\<open>if has_sec\<close> only.
\<close>

theorem parse_accepts_unread_default_dual:
  "children bad_dual_conf ''default_dual'' = Some ''bogus'' \<and>
   ''bogus'' \<notin> {''default'', ''primary'', ''secondary'', ''both''} \<and>
   ItemType_parse plain_name bad_dual_conf =
     Inr \<lparr>type_id = ''ITEM_BUTTON'', default_dual = None, invert_var = ''0'',
          enable_cmd = (None, []), disable_cmd = (None, []), sec_invert_var = None,
          sec_enable_cmd = None, sec_disable_cmd = None, output_type = DEFAULT\<rparr>"
  by (simp add: ItemType_parse_def parse_secondary_def conf_get_def conf_has_def
      bad_dual_conf_def ConnType_of_def plain_name_def)

text \<open>
  Claim C6, amended. Tokens are compared after case folding. A configuration whose
  \<^verbatim>\<open>DualType\<close> token is outside the four values is rejected; a configuration with a
  secondary command whose \<^verbatim>\<open>default_dual\<close> token is outside the four values is rejected
  with the \<^verbatim>\<open>ValueError\<close> whose message holds the item's name and that token.
\<close>

theorem parse_rejects_bad_tokens:
  "(casefold (conf_get conf ''DualType'' ''default'') \<notin>
        {''default'', ''primary'', ''secondary'', ''both''} \<longrightarrow>
      isl (ItemType_parse parse_name conf)) \<and>
   ((conf_has conf ''sec_enable_cmd'' \<or> conf_has conf ''sec_disable_cmd'') \<and>
      casefold (conf_get conf ''default_dual'' ''default'') \<notin>
        {''default'', ''primary'', ''secondary'', ''both''} \<longrightarrow>
      ItemType_parse parse_name conf =
        Inl (ValueError (''Invalid default type for '' @ quoted (real_name conf) @ '': '' @
                         conf_get conf ''default_dual'' ''default'')))"
proof (intro conjI impI)
  assume "casefold (conf_get conf ''DualType'' ''default'') \<notin>
      {''default'', ''primary'', ''secondary'', ''both''}"
  then have "ConnType_of (casefold (conf_get conf ''DualType'' ''default'')) = None"
    by (simp add: ConnType_of_None)
  then show "isl (ItemType_parse parse_name conf)"
    by (simp add: ItemType_parse_def Let_def split: sum.splits prod.splits)
next
  assume a: "(conf_has conf ''sec_enable_cmd'' \<or> conf_has conf ''sec_disable_cmd'') \<and>
      casefold (conf_get conf ''default_dual'' ''default'') \<notin>
        {''default'', ''primary'', ''secondary'', ''both''}"
  then have none: "ConnType_of (casefold (conf_get conf ''default_dual'' ''default'')) = None"
    by (simp add: ConnType_of_None)
  have present: "children conf ''default_dual'' \<noteq> None"
  proof
    assume "children conf ''default_dual'' = None"
    then have "conf_get conf ''default_dual'' ''default'' = ''default''"
      by (simp add: conf_get_def)
    with none show False
      by (simp add: ConnType_of_def)
  qed
  then obtain v where v: "children conf ''default_dual'' = Some v"
    by blast
  have sec: "parse_secondary parse_name conf = Inl (invalid_default_type (real_name conf) v)"
    using a none v by (simp add: parse_secondary_def conf_index_def)
  have "conf_get conf ''default_dual'' ''default'' = v"
    using v by (simp add: conf_get_def)
  with sec show "ItemType_parse parse_name conf =
      Inl (ValueError (''Invalid default type for '' @ quoted (real_name conf) @ '': '' @
                       conf_get conf ''default_dual'' ''default''))"
    by (simp add: ItemType_parse_def Let_def invalid_default_type_def)
qed

theorem parse_rejects_bad_tokens_witness:
  "casefold (conf_get bad_affinity_conf ''DualType'' ''default'') \<notin>
      {''default'', ''primary'', ''secondary'', ''both''} \<and>
   isl (ItemType_parse plain_name bad_affinity_conf) \<and>
   conf_has bad_sec_dual_conf ''sec_enable_cmd'' \<and>
   casefold (conf_get bad_sec_dual_conf ''default_dual'' ''default'') \<notin>
      {''default'', ''primary'', ''secondary'', ''both''} \<and>
   ItemType_parse plain_name bad_sec_dual_conf =
     Inl (ValueError (''Invalid default type for '' @ quoted ''ITEM_BUTTON'' @ '': Bogus''))"
proof -
  have a: "casefold (conf_get bad_affinity_conf ''DualType'' ''default'') \<notin>
      {''default'', ''primary'', ''secondary'', ''both''}"
    by (simp add: conf_get_def bad_affinity_conf_def) (simp add: casefold_def casefold_char_def)
  have s: "conf_has bad_sec_dual_conf ''sec_enable_cmd''"
    by (simp add: conf_has_def bad_sec_dual_conf_def)
  have d: "casefold (conf_get bad_sec_dual_conf ''default_dual'' ''default'') \<notin>
      {''default'', ''primary'', ''secondary'', ''both''}"
    by (simp add: conf_get_def bad_sec_dual_conf_def) (simp add: casefold_def casefold_char_def)
  have v: "conf_get bad_sec_dual_conf ''default_dual'' ''default'' = ''Bogus''"
    by (simp add: conf_get_def bad_sec_dual_conf_def)
  have n: "real_name bad_sec_dual_conf = ''ITEM_BUTTON''"
    by (simp add: bad_sec_dual_conf_def)
  from parse_rejects_bad_tokens [of bad_affinity_conf plain_name] a
  have 1: "isl (ItemType_parse plain_name bad_affinity_conf)"
    by blast
  from parse_rejects_bad_tokens [of bad_sec_dual_conf plain_name] s d
  have "ItemType_parse plain_name bad_sec_dual_conf =
      Inl (ValueError (''Invalid default type for '' @ quoted (real_name bad_sec_dual_conf) @
        '': '' @ conf_get bad_sec_dual_conf ''default_dual'' ''default''))"
    by blast
  then have 2: "ItemType_parse plain_name bad_sec_dual_conf =
      Inl (ValueError (''Invalid default type for '' @ quoted ''ITEM_BUTTON'' @ '': Bogus''))"
    by (simp only: v n) simp
  from a 1 s d 2 show ?thesis
    by blast
qed

subsection \<open>The type of a connection into a funnel\<close>





subsection \<open>The outputs of an item\<close>

lemma add_frame [simp]:
  "ents (add c s) = ents s" "ITEMS (add c s) = ITEMS s" "next_conn (add c s) = next_conn s"
  "next_item (add c s) = next_item s" "info_overlay (add c s) = info_overlay s"
  "func_instance (add c s) = func_instance s"
  by (simp_all add: add_def)

lemma add_item_fields [simp]:
  "inst (items (add c s) i) = inst (items s i)"
  "timer (items (add c s) i) = timer (items s i)"
  "ind_panels (items (add c s) i) = ind_panels (items s i)"
  "antlines (items (add c s) i) = antlines (items s i)"
  "item_type (items (add c s) i) = item_type (items s i)"
  by (simp_all add: add_def inputs_add_def outputs_add_def)

lemma new_connection_frame [simp]:
  "ents (new_connection a b t os s) = ents s" "ITEMS (new_connection a b t os s) = ITEMS s"
  "items (new_connection a b t os s) = items s" "next_item (new_connection a b t os s) = next_item s"
  "info_overlay (new_connection a b t os s) = info_overlay s"
  "func_instance (new_connection a b t os s) = func_instance s"
  "next_conn (new_connection a b t os s) = Suc (next_conn s)"
  by (simp_all add: new_connection_def)

lemma connect_items_frame:
  "connect_items E ins item rest s = Inr s' \<Longrightarrow>
     ents s' = ents s \<and> ITEMS s' = ITEMS s \<and> next_item s' = next_item s \<and>
     info_overlay s' = info_overlay s \<and> func_instance s' = func_instance s \<and>
     (\<forall>i. inst (items s' i) = inst (items s i) \<and> timer (items s' i) = timer (items s i) \<and>
          ind_panels (items s' i) = ind_panels (items s i) \<and> antlines (items s' i) = antlines (items s i)
        \<and> item_type (items s' i) = item_type (items s i))"
proof (induction rest arbitrary: s)
  case Nil
  then show ?case by simp
next
  case (Cons a rest)
  then show ?case
    by (auto simp add: Let_def split: sum.splits)
qed

lemma resolve_targets_fields:
  "resolve_targets n ov es reg nms (item, acc) = Inr (item', acc') \<Longrightarrow>
     inst item' = inst item \<and> inputs item' = inputs item \<and> outputs item' = outputs item \<and> item_type item' = item_type item"
  by (induction nms arbitrary: item acc) (auto split: if_splits option.splits)


lemma resolve_targets_known:
  "find (unknown_target n reg) nms = None \<Longrightarrow>
     \<exists>item' acc'. resolve_targets n ov es reg nms (item, acc) = Inr (item', acc')"
  by (induction nms arbitrary: item acc) (auto simp add: unknown_target_def split: if_splits option.splits)

lemma panel_targets_simps [simp]:
  "panel_targets n [] = []"
  "panel_targets n (nm # nms) =
     (if is_model_or_brush nm \<or> toggles n nm \<noteq> None then panel_targets n nms
      else case panels n nm of None \<Rightarrow> panel_targets n nms | Some p \<Rightarrow> p # panel_targets n nms)"
  by (simp_all add: panel_targets_def List.map_filter_simps split: option.splits)

lemma resolve_targets_timer:
  "resolve_targets n ov es reg nms (item, acc) = Inr (item', acc') \<Longrightarrow>
     timer item' = (if panel_targets n nms = [] then timer item
                    else panel_timer_value (es (last (panel_targets n nms)))) \<and>
     ind_panels item' = ind_panels item \<union> set (panel_targets n nms)"
proof (induction nms arbitrary: item acc)
  case Nil
  then show ?case by simp
next
  case (Cons nm nms)
  show ?case
  proof (cases "is_model_or_brush nm")
    case True
    with Cons show ?thesis by simp
  next
    case False
    note nb = this
    show ?thesis
    proof (cases "toggles n nm")
      case (Some t)
      with nb Cons show ?thesis by simp
    next
      case None
      note nt = this
      show ?thesis
      proof (cases "panels n nm")
        case (Some p)
        with nb nt Cons.prems
        have r: "resolve_targets n ov es reg nms
                    (item\<lparr>ind_panels := insert p (ind_panels item),
                          timer := panel_timer_value (es p)\<rparr>, acc) = Inr (item', acc')"
          by simp
        from Cons.IH [OF r] nb nt Some show ?thesis by auto
      next
        case None
        with nb nt Cons.prems obtain it where
          "resolve_targets n ov es reg nms (item, acc @ [it]) = Inr (item', acc')"
          by (auto split: option.splits)
        from Cons.IH [OF this] nb nt None show ?thesis by simp
      qed
    qed
  qed
qed

lemma resolve_targets_inputs:
  "resolve_targets n ov es reg nms (item, acc) = Inr (item', acc') \<Longrightarrow>
     set acc' \<subseteq> set acc \<union> snd ` set reg"
proof (induction nms arbitrary: item acc)
  case Nil
  then show ?case by auto
next
  case (Cons nm nms)
  show ?case
  proof (cases "is_model_or_brush nm \<or> toggles n nm \<noteq> None \<or> panels n nm \<noteq> None")
    case True
    with Cons.prems obtain item1 where
      "resolve_targets n ov es reg nms (item1, acc) = Inr (item', acc')"
      by (auto split: if_splits option.splits)
    from Cons.IH [OF this] show ?thesis .
  next
    case False
    with Cons.prems obtain it where it: "map_of reg nm = Some it"
      and r: "resolve_targets n ov es reg nms (item, acc @ [it]) = Inr (item', acc')"
      by (auto split: option.splits)
    from it have "it \<in> snd ` set reg"
      by (metis map_of_SomeD snd_conv image_eqI)
    with Cons.IH [OF r] show ?thesis by auto
  qed
qed

lemma reconcile_panels_frame [simp]:
  "ent_outputs (reconcile_panels E item es e) = ent_outputs (es e)"
  "traits (reconcile_panels E item es e) = traits (es e)"
  "item_id (reconcile_panels E item es e) = item_id (es e)"
  "kv (reconcile_panels E item es e) ''targetname'' = kv (es e) ''targetname''"
  "v \<noteq> TIM_ENABLED \<Longrightarrow> fixup (reconcile_panels E item es e) v = fixup (es e) v"
  by (simp_all add: reconcile_panels_def set_kv_def kv_def)

lemma reconcile_panels_panel:
  "p \<in> ind_panels item \<Longrightarrow>
     kv (reconcile_panels E item es p) ''file'' = desired_panel_inst E item \<and>
     fixup (reconcile_panels E item es p) TIM_ENABLED = Some (FBool (timer item \<noteq> None))"
  by (simp add: reconcile_panels_def set_kv_def kv_def)

lemma process_item_frame:
  assumes "process_item E n ov item s = Inr s'"
  shows "ITEMS s' = ITEMS s" "next_item s' = next_item s" "info_overlay s' = info_overlay s"
    "func_instance s' = func_instance s"
    "inst (items s' i) = inst (items s i)" "item_type (items s' i) = item_type (items s i)"
    "i \<noteq> item \<Longrightarrow> timer (items s' i) = timer (items s i)"
    "ent_outputs (ents s' e) = ent_outputs (ents s e)" "traits (ents s' e) = traits (ents s e)"
    "item_id (ents s' e) = item_id (ents s e)"
    "kv (ents s' e) ''targetname'' = kv (ents s e) ''targetname''"
    "v \<noteq> TIM_ENABLED \<Longrightarrow> fixup (ents s' e) v = fixup (ents s e) v"
proof -
  let ?ins = "group_outputs (ent_outputs (ents s (inst (items s item))))"
  from assms obtain item' input_items where
    r: "resolve_targets n ov (ents s) (ITEMS s) (map fst ?ins) (items s item, []) =
          Inr (item', input_items)"
    and c: "connect_items E ?ins item input_items
          (s\<lparr>items := (items s)(item := item'), ents := reconcile_panels E item' (ents s)\<rparr>) = Inr s'"
    by (auto simp add: process_item_def Let_def split: sum.splits)
  note f = connect_items_frame [OF c]
  note g = resolve_targets_fields [OF r]
  from f show "ITEMS s' = ITEMS s" "next_item s' = next_item s" "info_overlay s' = info_overlay s"
    "func_instance s' = func_instance s" by simp_all
  from f g show "inst (items s' i) = inst (items s i)" "item_type (items s' i) = item_type (items s i)"
    by simp_all
  from f show "i \<noteq> item \<Longrightarrow> timer (items s' i) = timer (items s i)" by simp
  from f show "ent_outputs (ents s' e) = ent_outputs (ents s e)" "traits (ents s' e) = traits (ents s e)"
    "item_id (ents s' e) = item_id (ents s e)"
    "kv (ents s' e) ''targetname'' = kv (ents s e) ''targetname''"
    "v \<noteq> TIM_ENABLED \<Longrightarrow> fixup (ents s' e) v = fixup (ents s e) v"
    by simp_all
qed

lemma process_item_timer:
  assumes "process_item E n ov item s = Inr s'"
  shows "timer (items s' item) =
           (if panel_targets n (item_targets s item) = [] then timer (items s item)
            else panel_timer_value (ents s (last (panel_targets n (item_targets s item)))))"
    and "ind_panels (items s' item) =
           ind_panels (items s item) \<union> set (panel_targets n (item_targets s item))"
    and "p \<in> ind_panels (items s' item) \<Longrightarrow>
           kv (ents s' p) ''file'' = desired_panel_inst E (items s' item) \<and>
           fixup (ents s' p) TIM_ENABLED = Some (FBool (timer (items s' item) \<noteq> None))"
proof -
  let ?ins = "group_outputs (ent_outputs (ents s (inst (items s item))))"
  from assms obtain item' input_items where
    r: "resolve_targets n ov (ents s) (ITEMS s) (map fst ?ins) (items s item, []) =
          Inr (item', input_items)"
    and c: "connect_items E ?ins item input_items
          (s\<lparr>items := (items s)(item := item'), ents := reconcile_panels E item' (ents s)\<rparr>) = Inr s'"
    by (auto simp add: process_item_def Let_def split: sum.splits)
  note f = connect_items_frame [OF c]
  note t = resolve_targets_timer [OF r]
  from f have ti: "timer (items s' item) = timer item'" and pa: "ind_panels (items s' item) = ind_panels item'"
    and en: "ents s' = reconcile_panels E item' (ents s)"
    by simp_all
  from ti t show "timer (items s' item) =
           (if panel_targets n (item_targets s item) = [] then timer (items s item)
            else panel_timer_value (ents s (last (panel_targets n (item_targets s item)))))"
    by (simp add: item_targets_def)
  from pa t show "ind_panels (items s' item) =
           ind_panels (items s item) \<union> set (panel_targets n (item_targets s item))"
    by (simp add: item_targets_def)
  assume "p \<in> ind_panels (items s' item)"
  with pa have "p \<in> ind_panels item'" by simp
  from reconcile_panels_panel [OF this, of E "ents s"] en ti
  show "kv (ents s' p) ''file'' = desired_panel_inst E (items s' item) \<and>
           fixup (ents s' p) TIM_ENABLED = Some (FBool (timer (items s' item) \<noteq> None))"
    by (simp add: desired_panel_inst_def)
qed


lemma panel_timer_value_ok: "timer_ok (panel_timer_value pan)"
  by (simp add: timer_ok_def panel_timer_value_def Let_def)

lemma process_item_timer_ok:
  assumes "process_item E n ov item s = Inr s'" and "\<forall>i. timer_ok (timer (items s i))"
  shows "\<forall>i. timer_ok (timer (items s' i))"
proof
  fix i
  show "timer_ok (timer (items s' i))"
  proof (cases "i = item")
    case True
    with process_item_timer(1) [OF assms(1)] assms(2) show ?thesis
      by (simp add: panel_timer_value_ok)
  next
    case False
    with process_item_frame(7) [OF assms(1)] assms(2) show ?thesis by simp
  qed
qed

lemma build_edges_timer_ok:
  "build_edges E n ov its s = Inr s' \<Longrightarrow> \<forall>i. timer_ok (timer (items s i)) \<Longrightarrow>
     \<forall>i. timer_ok (timer (items s' i))"
proof (induction its arbitrary: s)
  case Nil
  then show ?case by simp
next
  case (Cons a its)
  from Cons.prems(1) obtain s1 where p: "process_item E n ov a s = Inr s1"
    and b: "build_edges E n ov its s1 = Inr s'"
    by (auto split: sum.splits)
  from Cons.IH [OF b process_item_timer_ok [OF p Cons.prems(2)]] show ?case .
qed

lemma build_edges_frame:
  assumes "build_edges E n ov its s = Inr s'"
  shows "ITEMS s' = ITEMS s \<and> next_item s' = next_item s \<and> info_overlay s' = info_overlay s \<and>
    func_instance s' = func_instance s \<and>
    (\<forall>i. inst (items s' i) = inst (items s i) \<and> item_type (items s' i) = item_type (items s i)) \<and>
    (\<forall>e. ent_outputs (ents s' e) = ent_outputs (ents s e) \<and> traits (ents s' e) = traits (ents s e) \<and>
      item_id (ents s' e) = item_id (ents s e) \<and>
      kv (ents s' e) ''targetname'' = kv (ents s e) ''targetname'' \<and>
      (\<forall>v. v \<noteq> TIM_ENABLED \<longrightarrow> fixup (ents s' e) v = fixup (ents s e) v))"
  using assms
proof (induction its arbitrary: s)
  case Nil
  then show ?case by simp
next
  case (Cons a its)
  from Cons.prems(1) obtain s1 where p: "process_item E n ov a s = Inr s1"
    and b: "build_edges E n ov its s1 = Inr s'"
    by (auto split: sum.splits)
  from Cons.IH [OF b] process_item_frame [OF p] show ?case by simp
qed








subsection \<open>The whole function\<close>

lemma scan_instances_frame:
  "scan_instances E is (n, s) = Inr (n', s') \<Longrightarrow>
     ents s' = ents s \<and> conns s' = conns s \<and> next_conn s' = next_conn s \<and>
     info_overlay s' = info_overlay s \<and> func_instance s' = func_instance s"
proof (induction "is" arbitrary: n s)
  case Nil
  then show ?case by simp
next
  case (Cons i "is")
  then show ?case
    by (auto simp add: Let_def split: if_splits option.splits sum.splits)
qed

lemma Item_init_timer: "Item_init es i ty = Inr it \<Longrightarrow> timer it = None"
  by (auto simp add: Item_init_def split: if_splits)

lemma scan_instances_timer_ok:
  "scan_instances E is (n, s) = Inr (n', s') \<Longrightarrow> \<forall>i. timer_ok (timer (items s i)) \<Longrightarrow>
     \<forall>i. timer_ok (timer (items s' i))"
proof (induction "is" arbitrary: n s)
  case Nil
  then show ?case by simp
next
  case (Cons i "is")
  show ?case
  proof (cases "kv (ents s i) ''targetname'' = [] \<or> ''indicator_toggle'' \<in> traits (ents s i) \<or>
      ''indicator_panel'' \<in> traits (ents s i)")
    case True
    with Cons.prems(1) obtain n1 where "scan_instances E is (n1, s) = Inr (n', s')"
      by (auto simp add: Let_def split: if_splits)
    from Cons.IH [OF this Cons.prems(2)] show ?thesis .
  next
    case False
    with Cons.prems(1) obtain ty it where
      it: "Item_init (ents s) i ty = Inr it" and
      r: "scan_instances E is
            (n, s\<lparr>items := (items s)(next_item s := it), next_item := Suc (next_item s),
                  ITEMS := AList.update (kv (ents s i) ''targetname'') (next_item s) (ITEMS s)\<rparr>) = Inr (n', s')"
      by (auto simp add: Let_def split: if_splits option.splits sum.splits)
    have "\<forall>j. timer_ok (timer (items (s\<lparr>items := (items s)(next_item s := it), next_item := Suc (next_item s),
                  ITEMS := AList.update (kv (ents s i) ''targetname'') (next_item s) (ITEMS s)\<rparr>) j))"
      using Cons.prems(2) Item_init_timer [OF it] by (simp add: timer_ok_def)
    from Cons.IH [OF r this] show ?thesis .
  qed
qed

lemma fix_counts_item_frame [simp]:
  "items (fix_counts_item it s) = items s" "conns (fix_counts_item it s) = conns s"
  "ITEMS (fix_counts_item it s) = ITEMS s" "next_item (fix_counts_item it s) = next_item s"
  "next_conn (fix_counts_item it s) = next_conn s" "info_overlay (fix_counts_item it s) = info_overlay s"
  "func_instance (fix_counts_item it s) = func_instance s"
  by (simp_all add: fix_counts_item_def Let_def)

lemma fold_fix_counts_frame:
  "items (fold fix_counts_item its s) = items s \<and> conns (fold fix_counts_item its s) = conns s \<and>
   ITEMS (fold fix_counts_item its s) = ITEMS s \<and> next_item (fold fix_counts_item its s) = next_item s \<and>
   next_conn (fold fix_counts_item its s) = next_conn s \<and>
   info_overlay (fold fix_counts_item its s) = info_overlay s \<and>
   func_instance (fold fix_counts_item its s) = func_instance s"
  by (induction its arbitrary: s) simp_all

lemma fix_counts_frame [simp]:
  "items (fix_counts s) = items s" "conns (fix_counts s) = conns s"
  "ITEMS (fix_counts s) = ITEMS s" "next_item (fix_counts s) = next_item s"
  "next_conn (fix_counts s) = next_conn s" "info_overlay (fix_counts s) = info_overlay s"
  "func_instance (fix_counts s) = func_instance s"
  by (simp_all add: fix_counts_def fold_fix_counts_frame)

lemma calc_connections_Inr:
  assumes "calc_connections E tex en s0 = Inr (s', b)"
  obtains n s1 ovs by_index s2 where
    "scan_instances E (func_instance s0) (no_names, s0) = Inr (n, s1)"
    "sign_shapes E (info_overlay s1) = Inr (ovs, by_index)"
    "build_edges E n (snd (scan_overlays E (info_overlay s1) [0..<length (info_overlay s1)] ([], \<lambda>_. {})))
       (map snd (ITEMS s1)) (s1\<lparr>info_overlay := ovs\<rparr>) = Inr s2"
    "s' = (fix_counts s2)\<lparr>info_overlay := fst (make_frames tex en (ovs, by_index))\<rparr>"
    "b = snd (make_frames tex en (ovs, by_index))"
proof -
  from assms obtain n s1 where
    1: "scan_instances E (func_instance s0) (no_names, s0) = Inr (n, s1)"
    by (auto simp add: calc_connections_def no_names_def split: sum.splits)
  with assms obtain ovs by_index where 2: "sign_shapes E (info_overlay s1) = Inr (ovs, by_index)"
    by (auto simp add: calc_connections_def no_names_def Let_def split: sum.splits)
  with 1 assms obtain s2 where 3: "build_edges E n (snd (scan_overlays E (info_overlay s1) [0..<length (info_overlay s1)] ([], \<lambda>_. {})))
       (map snd (ITEMS s1)) (s1\<lparr>info_overlay := ovs\<rparr>) = Inr s2"
    by (auto simp add: calc_connections_def no_names_def Let_def split: sum.splits)
  from build_edges_frame [OF 3] have io: "info_overlay s2 = ovs" by simp
  from 1 2 3 assms io have "s' = (fix_counts s2)\<lparr>info_overlay := fst (make_frames tex en (ovs, by_index))\<rparr>"
    "b = snd (make_frames tex en (ovs, by_index))"
    by (auto simp add: calc_connections_def no_names_def Let_def split: sum.splits prod.splits)
  with 1 2 3 that show thesis by blast
qed

lemma calc_connections_timer_ok:
  assumes "calc_connections E tex en s0 = Inr (s', b)" and "\<forall>i. timer_ok (timer (items s0 i))"
  shows "\<forall>i. timer_ok (timer (items s' i))"
proof -
  from assms(1) obtain n s1 ovs by_index s2 ov where
    1: "scan_instances E (func_instance s0) (no_names, s0) = Inr (n, s1)" and
    3: "build_edges E n ov (map snd (ITEMS s1)) (s1\<lparr>info_overlay := ovs\<rparr>) = Inr s2" and
    4: "s' = (fix_counts s2)\<lparr>info_overlay := fst (make_frames tex en (ovs, by_index))\<rparr>"
    by (rule calc_connections_Inr)
  from scan_instances_timer_ok [OF 1 assms(2)]
  have "\<forall>i. timer_ok (timer (items (s1\<lparr>info_overlay := ovs\<rparr>) i))" by simp
  from build_edges_timer_ok [OF 3 this] 4 show ?thesis by simp
qed

subsection \<open>Unknown targets\<close>

text \<open>The definitions that evaluate the function on an example map.\<close>

lemmas scene_eval =
  calc_connections_def fresh_scene_def example_env_def named_item_def panel_entity_def
  output_to_def no_entity_def kv_def Item_init_def casefold_def casefold_char_def blank_item_def
  Let_def sign_shapes_def group_outputs_def process_item_def is_model_or_brush_def endswith_def
  panel_timer_value_def fixup_bool_def fixup_int_def reconcile_panels_def desired_panel_inst_def
  set_kv_def fix_counts_def fix_counts_item_def make_frames_def dd_get_def connection_type_def
  new_connection_def add_def inputs_add_def outputs_add_def unknown_instance_error_def
  scanned_def no_names_def item_targets_def




subsection \<open>Timers and panels\<close>

text \<open>
  Claim C3, as stated, fails: an item with outputs to the panel \<^verbatim>\<open>pan_a\<close>, which is no
  timer, and then to the panel \<^verbatim>\<open>pan_b\<close>, a timer of delay 5, ends with the timer 5
  although it is wired to a panel whose timer flag is false.
\<close>

theorem timer_of_later_panel:
  "output_to ''pan_a'' \<in> set (ent_outputs (ents two_panel_scene 0)) \<and>
   kv (ents two_panel_scene 1) ''targetname'' = ''pan_a'' \<and>
   ''indicator_panel'' \<in> traits (ents two_panel_scene 1) \<and>
   \<not> fixup_bool (fixup (ents two_panel_scene 1)) TIM_ENABLED \<and>
   \<not> isl (calc_connections example_env [] False two_panel_scene) \<and>
   timer (items (fst (projr (calc_connections example_env [] False two_panel_scene))) 0) = Some 5"
  by (simp add: two_panel_scene_def scene_eval)

text \<open>
  Claim C3, amended. After \<^verbatim>\<open>calc_connections\<close> every item's timer is \<^verbatim>\<open>None\<close> or an
  integer from 1 to 30 (given that the timers were so before). When the outputs of an item
  are processed, the last panel among its target names decides its timer, and the timer
  stays as it was if there is no panel: a panel whose timer flag is false gives \<^verbatim>\<open>None\<close>,
  a panel whose flag is true gives its delay if that is from 1 to 30 and \<^verbatim>\<open>None\<close> otherwise.
\<close>

theorem item_timer_from_last_panel:
  "((\<forall>i. timer_ok (timer (items s0 i))) \<and> calc_connections E tex en s0 = Inr (s', b) \<longrightarrow>
      (\<forall>i. timer_ok (timer (items s' i)))) \<and>
   (process_item E n ov item s = Inr s1 \<longrightarrow>
      timer (items s1 item) =
        (if panel_targets n (item_targets s item) = [] then timer (items s item)
         else panel_timer_value (ents s (last (panel_targets n (item_targets s item)))))) \<and>
   (\<not> fixup_bool (fixup pan) TIM_ENABLED \<longrightarrow> panel_timer_value pan = None) \<and>
   (fixup_bool (fixup pan) TIM_ENABLED \<and> 1 \<le> fixup_int (fixup pan) TIM_DELAY \<and>
      fixup_int (fixup pan) TIM_DELAY \<le> 30 \<longrightarrow>
      panel_timer_value pan = Some (fixup_int (fixup pan) TIM_DELAY)) \<and>
   (fixup_bool (fixup pan) TIM_ENABLED \<and>
      (fixup_int (fixup pan) TIM_DELAY < 1 \<or> 30 < fixup_int (fixup pan) TIM_DELAY) \<longrightarrow>
      panel_timer_value pan = None)"
proof (intro conjI impI)
  assume "(\<forall>i. timer_ok (timer (items s0 i))) \<and> calc_connections E tex en s0 = Inr (s', b)"
  then show "\<forall>i. timer_ok (timer (items s' i))"
    using calc_connections_timer_ok by blast
next
  assume "process_item E n ov item s = Inr s1"
  from process_item_timer(1) [OF this]
  show "timer (items s1 item) =
        (if panel_targets n (item_targets s item) = [] then timer (items s item)
         else panel_timer_value (ents s (last (panel_targets n (item_targets s item)))))" .
qed (auto simp add: panel_timer_value_def Let_def)

theorem item_timer_from_last_panel_witness:
  "(\<forall>i. timer_ok (timer (items two_panel_scene i))) \<and>
   calc_connections example_env [] False two_panel_scene =
     Inr (projr (calc_connections example_env [] False two_panel_scene)) \<and>
   timer_ok (timer (items (fst (projr (calc_connections example_env [] False two_panel_scene))) 0)) \<and>
   process_item example_env (fst (scanned example_env two_panel_scene)) (\<lambda>_. {}) 0
       (snd (scanned example_env two_panel_scene)) =
     Inr (projr (process_item example_env (fst (scanned example_env two_panel_scene)) (\<lambda>_. {}) 0
       (snd (scanned example_env two_panel_scene)))) \<and>
   panel_targets (fst (scanned example_env two_panel_scene))
       (item_targets (snd (scanned example_env two_panel_scene)) 0) = [1, 2] \<and>
   timer (items (projr (process_item example_env (fst (scanned example_env two_panel_scene))
       (\<lambda>_. {}) 0 (snd (scanned example_env two_panel_scene)))) 0) = Some 5 \<and>
   \<not> fixup_bool (fixup (panel_entity ''pan_a'' False 0)) TIM_ENABLED \<and>
   panel_timer_value (panel_entity ''pan_a'' False 0) = None \<and>
   fixup_bool (fixup (panel_entity ''pan_b'' True 5)) TIM_ENABLED \<and>
   panel_timer_value (panel_entity ''pan_b'' True 5) = Some 5 \<and>
   fixup_bool (fixup (panel_entity ''pan_c'' True 31)) TIM_ENABLED \<and>
   30 < fixup_int (fixup (panel_entity ''pan_c'' True 31)) TIM_DELAY \<and>
   panel_timer_value (panel_entity ''pan_c'' True 31) = None"
proof -
  let ?n = "fst (scanned example_env two_panel_scene)"
  let ?s = "snd (scanned example_env two_panel_scene)"
  let ?c = "calc_connections example_env [] False two_panel_scene"
  let ?p = "process_item example_env ?n (\<lambda>_. {}) 0 ?s"
  have ok: "\<forall>i. timer_ok (timer (items two_panel_scene i))"
    by (simp add: two_panel_scene_def fresh_scene_def blank_item_def timer_ok_def)
  have "\<not> isl ?c"
    by (simp add: two_panel_scene_def scene_eval)
  then have c: "?c = Inr (fst (projr ?c), snd (projr ?c))"
    by (cases ?c) simp_all
  have s: "scanned example_env two_panel_scene =
     (\<lparr>toggles = Map.empty, panels = [''pan_a'' \<mapsto> 1, ''pan_b'' \<mapsto> 2]\<rparr>,
      two_panel_scene\<lparr>items := blank_item(0 := blank_item 0), next_item := 1,
        ITEMS := [(''button'', 0)]\<rparr>)"
    by (simp add: two_panel_scene_def scene_eval blank_type_def)
  have "\<not> isl ?p"
    by (simp add: s) (simp add: two_panel_scene_def scene_eval)
  then have p: "?p = Inr (projr ?p)"
    by (cases ?p) simp_all
  have pt: "panel_targets ?n (item_targets ?s 0) = [1, 2]"
    by (simp add: s) (simp add: two_panel_scene_def scene_eval)
  have es: "ents ?s 2 = panel_entity ''pan_b'' True 5"
    by (simp add: s) (simp add: two_panel_scene_def fresh_scene_def)
  have a: "\<not> fixup_bool (fixup (panel_entity ''pan_a'' False 0)) TIM_ENABLED"
    by (simp add: panel_entity_def fixup_bool_def)
  have b: "fixup_bool (fixup (panel_entity ''pan_b'' True 5)) TIM_ENABLED \<and>
      1 \<le> fixup_int (fixup (panel_entity ''pan_b'' True 5)) TIM_DELAY \<and>
      fixup_int (fixup (panel_entity ''pan_b'' True 5)) TIM_DELAY \<le> 30 \<and>
      fixup_int (fixup (panel_entity ''pan_b'' True 5)) TIM_DELAY = 5"
    by (simp add: panel_entity_def fixup_bool_def fixup_int_def)
  have d: "fixup_bool (fixup (panel_entity ''pan_c'' True 31)) TIM_ENABLED \<and>
      30 < fixup_int (fixup (panel_entity ''pan_c'' True 31)) TIM_DELAY"
    by (simp add: panel_entity_def fixup_bool_def fixup_int_def)
  note t1 = item_timer_from_last_panel [of two_panel_scene example_env "[]" False
      "fst (projr ?c)" "snd (projr ?c)" ?n "\<lambda>_. {}" 0 ?s "projr ?p" "panel_entity ''pan_a'' False 0"]
  note t2 = item_timer_from_last_panel [of two_panel_scene example_env "[]" False
      "fst (projr ?c)" "snd (projr ?c)" ?n "\<lambda>_. {}" 0 ?s "projr ?p" "panel_entity ''pan_b'' True 5"]
  note t3 = item_timer_from_last_panel [of two_panel_scene example_env "[]" False
      "fst (projr ?c)" "snd (projr ?c)" ?n "\<lambda>_. {}" 0 ?s "projr ?p" "panel_entity ''pan_c'' True 31"]
  from t1 ok c have 1: "timer_ok (timer (items (fst (projr ?c)) 0))" by blast
  from t2 b have 3: "panel_timer_value (panel_entity ''pan_b'' True 5) = Some 5" by simp
  from t1 p have "timer (items (projr ?p) 0) =
        (if panel_targets ?n (item_targets ?s 0) = [] then timer (items ?s 0)
         else panel_timer_value (ents ?s (last (panel_targets ?n (item_targets ?s 0)))))"
    by blast
  then have 2: "timer (items (projr ?p) 0) = Some 5"
    by (simp add: pt es 3)
  from t1 a have 4: "panel_timer_value (panel_entity ''pan_a'' False 0) = None" by blast
  from t3 d have 5: "panel_timer_value (panel_entity ''pan_c'' True 31) = None" by blast
  from ok c 1 p pt 2 a 4 b 3 d 5 show ?thesis by simp
qed



subsection \<open>The registry after the scan\<close>

lemma find_rev_last:
  "find P (rev xs) = (if filter P xs = [] then None else Some (last (filter P xs)))"
  by (induction xs rule: rev_induct) auto

lemma scan_instances_skip:
  "\<not> is_item (ents s) i \<Longrightarrow>
     \<exists>n1. scan_instances E (i # rest) (n, s) = scan_instances E rest (n1, s)"
  by (auto simp add: is_item_def Let_def)

lemma scan_instances_item:
  assumes "is_item (ents s) i"
  shows "scan_instances E (i # rest) (n, s) =
     (case ITEM_TYPES E (casefold (item_id (ents s i))) of
        None \<Rightarrow> Inl (no_connections_error (item_id (ents s i)))
      | Some ty \<Rightarrow>
          scan_instances E rest
            (n, s\<lparr>items := (items s)(next_item s := (blank_item i)\<lparr>item_type := ty\<rparr>),
                  next_item := Suc (next_item s),
                  ITEMS := AList.update (kv (ents s i) ''targetname'') (next_item s) (ITEMS s)\<rparr>))"
  using assms
  by (simp add: is_item_def Let_def Item_init_def blank_item_def split: option.splits)

lemma scan_instances_succeeds:
  "types_known E (ents s) insts \<Longrightarrow> \<exists>n' s'. scan_instances E insts (n, s) = Inr (n', s')"
proof (induction insts arbitrary: n s)
  case Nil
  then show ?case by simp
next
  case (Cons i insts)
  from Cons.prems have tk: "types_known E (ents s) insts" by (simp add: types_known_def)
  show ?case
  proof (cases "is_item (ents s) i")
    case False
    from scan_instances_skip [OF False, of E insts n] obtain n1 where
      e: "scan_instances E (i # insts) (n, s) = scan_instances E insts (n1, s)" by blast
    from Cons.IH [OF tk, of n1] show ?thesis
      by (simp only: e)
  next
    case True
    with Cons.prems obtain ty where ty: "ITEM_TYPES E (casefold (item_id (ents s i))) = Some ty"
      by (auto simp add: types_known_def)
    let ?s1 = "s\<lparr>items := (items s)(next_item s := (blank_item i)\<lparr>item_type := ty\<rparr>),
                  next_item := Suc (next_item s),
                  ITEMS := AList.update (kv (ents s i) ''targetname'') (next_item s) (ITEMS s)\<rparr>"
    from tk have "types_known E (ents ?s1) insts" by simp
    from Cons.IH [OF this, of n] show ?thesis
      unfolding scan_instances_item [OF True] ty by simp
  qed
qed

lemma set_update_subset:
  "set (AList.update k v al) \<subseteq> insert (k, v) (set al)"
  by (induction al) auto

lemma registry_ok_update:
  assumes "registry_ok s"
  shows "registry_ok (s\<lparr>items := its, next_item := Suc (next_item s),
           ITEMS := AList.update nm (next_item s) (ITEMS s)\<rparr>)"
proof -
  have "snd e < Suc (next_item s)" if "e \<in> set (AList.update nm (next_item s) (ITEMS s))" for e
  proof -
    from that set_update_subset [of nm "next_item s" "ITEMS s"]
    have "e = (nm, next_item s) \<or> e \<in> set (ITEMS s)" by blast
    then show ?thesis
    proof
      assume "e = (nm, next_item s)"
      then show ?thesis by simp
    next
      assume "e \<in> set (ITEMS s)"
      with assms have "snd e < next_item s" by (simp add: registry_ok_def list_all_iff)
      then show ?thesis by simp
    qed
  qed
  then show ?thesis
    by (simp add: registry_ok_def list_all_iff)
qed

lemma registered_inst_update_same:
  "registered_inst (s\<lparr>items := (items s)(next_item s := it), next_item := Suc (next_item s),
           ITEMS := AList.update nm (next_item s) (ITEMS s)\<rparr>) nm = Some (inst it)"
  by (simp add: registered_inst_def update_conv')

lemma registered_inst_update_other:
  assumes "registry_ok s" and "k \<noteq> nm"
  shows "registered_inst (s\<lparr>items := (items s)(next_item s := it), next_item := Suc (next_item s),
           ITEMS := AList.update nm (next_item s) (ITEMS s)\<rparr>) k = registered_inst s k"
proof (cases "map_of (ITEMS s) k")
  case None
  with assms(2) show ?thesis by (simp add: registered_inst_def update_conv')
next
  case (Some v)
  then have "(k, v) \<in> set (ITEMS s)" by (rule map_of_SomeD)
  with assms(1) have "v < next_item s" by (auto simp add: registry_ok_def list_all_iff)
  then have "v \<noteq> next_item s" by simp
  with Some assms(2) show ?thesis by (simp add: registered_inst_def update_conv')
qed

lemma registered_inst_update:
  assumes "registry_ok s"
  shows "registered_inst (s\<lparr>items := (items s)(next_item s := it), next_item := Suc (next_item s),
           ITEMS := AList.update nm (next_item s) (ITEMS s)\<rparr>) k =
         (if k = nm then Some (inst it) else registered_inst s k)"
  using registered_inst_update_same [where s = s and it = it and nm = nm]
    registered_inst_update_other [OF assms, where k = k and nm = nm and it = it]
  by (cases "k = nm") simp_all

lemma scan_instances_registry:
  "scan_instances E insts (n, s) = Inr (n', s') \<Longrightarrow> registry_ok s \<Longrightarrow>
     registry_ok s' \<and>
     (\<forall>k. registered_inst s' k =
        (if filter (item_named (ents s) k) insts = [] then registered_inst s k
         else Some (last (filter (item_named (ents s) k) insts))))"
proof (induction insts arbitrary: n s)
  case Nil
  then show ?case by simp
next
  case (Cons i insts)
  show ?case
  proof (cases "is_item (ents s) i")
    case False
    from scan_instances_skip [OF False, of E insts n] Cons.prems(1) obtain n1 where
      "scan_instances E insts (n1, s) = Inr (n', s')" by auto
    from Cons.IH [OF this Cons.prems(2)] False show ?thesis
      by (simp add: item_named_def)
  next
    case True
    let ?nm = "kv (ents s i) ''targetname''"
    from Cons.prems(1) True obtain ty where
      r: "scan_instances E insts
            (n, s\<lparr>items := (items s)(next_item s := (blank_item i)\<lparr>item_type := ty\<rparr>),
                  next_item := Suc (next_item s),
                  ITEMS := AList.update ?nm (next_item s) (ITEMS s)\<rparr>) = Inr (n', s')"
      unfolding scan_instances_item [OF True] by (auto split: option.splits)
    let ?s1 = "s\<lparr>items := (items s)(next_item s := (blank_item i)\<lparr>item_type := ty\<rparr>),
                  next_item := Suc (next_item s),
                  ITEMS := AList.update ?nm (next_item s) (ITEMS s)\<rparr>"
    have ok1: "registry_ok ?s1" by (rule registry_ok_update [OF Cons.prems(2)])
    note ih = Cons.IH [OF r ok1]
    have e: "ents ?s1 = ents s" by simp
    have reg1: "\<And>k. registered_inst ?s1 k = (if k = ?nm then Some i else registered_inst s k)"
      using registered_inst_update [OF Cons.prems(2),
          where it = "(blank_item i)\<lparr>item_type := ty\<rparr>" and nm = ?nm]
      by (simp add: blank_item_def)
    show ?thesis
    proof (intro conjI allI)
      from ih show "registry_ok s'" by simp
    next
      fix k
      from ih have "registered_inst s' k =
        (if filter (item_named (ents s) k) insts = [] then registered_inst ?s1 k
         else Some (last (filter (item_named (ents s) k) insts)))"
        by (simp only: e)
      with reg1 [of k] True
      show "registered_inst s' k =
        (if filter (item_named (ents s) k) (i # insts) = [] then registered_inst s k
         else Some (last (filter (item_named (ents s) k) (i # insts))))"
        by (auto simp add: item_named_def)
    qed
  qed
qed

lemma scan_instances_distinct:
  "scan_instances E insts (n, s) = Inr (n', s') \<Longrightarrow> distinct (map fst (ITEMS s)) \<Longrightarrow>
     distinct (map fst (ITEMS s'))"
proof (induction insts arbitrary: n s)
  case Nil
  then show ?case by simp
next
  case (Cons i insts)
  show ?case
  proof (cases "is_item (ents s) i")
    case False
    from scan_instances_skip [OF False, of E insts n] Cons.prems(1) obtain n1 where
      "scan_instances E insts (n1, s) = Inr (n', s')" by auto
    from Cons.IH [OF this Cons.prems(2)] show ?thesis .
  next
    case True
    from Cons.prems(1) True obtain ty where
      r: "scan_instances E insts
            (n, s\<lparr>items := (items s)(next_item s := (blank_item i)\<lparr>item_type := ty\<rparr>),
                  next_item := Suc (next_item s),
                  ITEMS := AList.update (kv (ents s i) ''targetname'') (next_item s) (ITEMS s)\<rparr>) = Inr (n', s')"
      unfolding scan_instances_item [OF True] by (auto split: option.splits)
    show ?thesis
      by (rule Cons.IH [OF r]) (simp add: distinct_update Cons.prems(2))
  qed
qed

lemma scan_instances_fails:
  "\<not> types_known E (ents s) insts \<Longrightarrow> isl (scan_instances E insts (n, s))"
proof (induction insts arbitrary: n s)
  case Nil
  then show ?case by (simp add: types_known_def)
next
  case (Cons i insts)
  show ?case
  proof (cases "is_item (ents s) i")
    case False
    with Cons.prems have tk: "\<not> types_known E (ents s) insts" by (simp add: types_known_def)
    from scan_instances_skip [OF False, of E insts n] obtain n1 where
      e: "scan_instances E (i # insts) (n, s) = scan_instances E insts (n1, s)" by blast
    from Cons.IH [OF tk, of n1] show ?thesis by (simp only: e)
  next
    case True
    show ?thesis
    proof (cases "ITEM_TYPES E (casefold (item_id (ents s i)))")
      case None
      then show ?thesis unfolding scan_instances_item [OF True] by simp
    next
      case (Some ty)
      let ?s1 = "s\<lparr>items := (items s)(next_item s := (blank_item i)\<lparr>item_type := ty\<rparr>),
                  next_item := Suc (next_item s),
                  ITEMS := AList.update (kv (ents s i) ''targetname'') (next_item s) (ITEMS s)\<rparr>"
      from Cons.prems Some have "\<not> types_known E (ents ?s1) insts" by (simp add: types_known_def)
      from Cons.IH [OF this, of n] show ?thesis
        unfolding scan_instances_item [OF True] Some by simp
    qed
  qed
qed

lemma connect_items_conns:
  "connect_items E ins item rest s = Inr s' \<Longrightarrow>
     next_conn s \<le> next_conn s' \<and> (\<forall>c < next_conn s. conns s' c = conns s c) \<and>
     (\<forall>c. next_conn s \<le> c \<and> c < next_conn s' \<longrightarrow>
          out (conns s' c) = item \<and> inp (conns s' c) \<in> set rest)"
proof (induction rest arbitrary: s)
  case Nil
  then show ?case by simp
next
  case (Cons a rest)
  let ?inst = "ents s (inst (items s a))"
  let ?outs = "dd_get ins (kv ?inst ''targetname'')"
  from Cons.prems obtain t where
    r: "connect_items E ins item rest (add (next_conn s) (new_connection a item t ?outs s)) = Inr s'"
    by (auto simp add: Let_def split: sum.splits)
  let ?s1 = "add (next_conn s) (new_connection a item t ?outs s)"
  have n1: "next_conn ?s1 = Suc (next_conn s)" by simp
  have c1: "conns ?s1 = (conns s)(next_conn s := \<lparr>inp = a, out = item, type = t, conn_outputs = ?outs\<rparr>)"
    by (simp add: new_connection_def)
  note ih = Cons.IH [OF r]
  show ?case
  proof (intro conjI allI impI)
    from ih n1 show "next_conn s \<le> next_conn s'" by simp
  next
    fix c assume "c < next_conn s"
    with ih n1 c1 show "conns s' c = conns s c" by simp
  next
    fix c assume a: "next_conn s \<le> c \<and> c < next_conn s'"
    show "out (conns s' c) = item"
    proof (cases "c = next_conn s")
      case True
      with ih n1 c1 show ?thesis by simp
    next
      case False
      with a ih n1 show ?thesis by simp
    qed
    show "inp (conns s' c) \<in> set (a # rest)"
    proof (cases "c = next_conn s")
      case True
      with ih n1 c1 show ?thesis by simp
    next
      case False
      with a ih n1 show ?thesis by simp
    qed
  qed
qed

lemma process_item_conns:
  assumes "process_item E n ov item s = Inr s'"
  shows "next_conn s \<le> next_conn s' \<and> (\<forall>c < next_conn s. conns s' c = conns s c) \<and>
     (\<forall>c. next_conn s \<le> c \<and> c < next_conn s' \<longrightarrow>
          out (conns s' c) = item \<and> inp (conns s' c) \<in> snd ` set (ITEMS s))"
proof -
  let ?ins = "group_outputs (ent_outputs (ents s (inst (items s item))))"
  from assms obtain item' input_items where
    r: "resolve_targets n ov (ents s) (ITEMS s) (map fst ?ins) (items s item, []) =
          Inr (item', input_items)"
    and c: "connect_items E ?ins item input_items
          (s\<lparr>items := (items s)(item := item'), ents := reconcile_panels E item' (ents s)\<rparr>) = Inr s'"
    by (auto simp add: process_item_def Let_def split: sum.splits)
  from resolve_targets_inputs [OF r] have "set input_items \<subseteq> snd ` set (ITEMS s)" by simp
  with connect_items_conns [OF c] show ?thesis by auto
qed

lemma build_edges_conns:
  "build_edges E n ov its s = Inr s' \<Longrightarrow>
     next_conn s \<le> next_conn s' \<and> (\<forall>c < next_conn s. conns s' c = conns s c) \<and>
     (\<forall>c. next_conn s \<le> c \<and> c < next_conn s' \<longrightarrow>
          out (conns s' c) \<in> set its \<and> inp (conns s' c) \<in> snd ` set (ITEMS s))"
proof (induction its arbitrary: s)
  case Nil
  then show ?case by simp
next
  case (Cons a its)
  from Cons.prems obtain s1 where p: "process_item E n ov a s = Inr s1"
    and b: "build_edges E n ov its s1 = Inr s'"
    by (auto split: sum.splits)
  note pc = process_item_conns [OF p]
  note ih = Cons.IH [OF b]
  have I: "ITEMS s1 = ITEMS s" by (rule process_item_frame(1) [OF p])
  show ?case
  proof (intro conjI allI impI)
    from pc ih show "next_conn s \<le> next_conn s'" by simp
  next
    fix c assume "c < next_conn s"
    with pc ih show "conns s' c = conns s c" by simp
  next
    fix c assume a: "next_conn s \<le> c \<and> c < next_conn s'"
    show "out (conns s' c) \<in> set (a # its)"
    proof (cases "c < next_conn s1")
      case True
      with a pc ih show ?thesis by simp
    next
      case False
      with a ih show ?thesis by simp
    qed
    show "inp (conns s' c) \<in> snd ` set (ITEMS s)"
    proof (cases "c < next_conn s1")
      case True
      with a pc ih show ?thesis by simp
    next
      case False
      with a ih I show ?thesis by simp
    qed
  qed
qed

subsection \<open>Instances that share a name\<close>

lemma one_entry_per_key:
  "distinct (map fst l) \<Longrightarrow> map_of l k = Some v \<Longrightarrow> length (filter (\<lambda>e. fst e = k) l) = 1"
proof (induction l)
  case Nil
  then show ?case by simp
next
  case (Cons e l)
  show ?case
  proof (cases "fst e = k")
    case True
    with Cons.prems(1) have "k \<notin> fst ` set l" by simp
    then have "\<forall>x \<in> set l. fst x \<noteq> k" by force
    then have "filter (\<lambda>e. fst e = k) l = []" by (simp add: filter_empty_conv)
    with True show ?thesis by simp
  next
    case False
    with Cons.prems have "map_of l k = Some v" by (cases e) auto
    with Cons.IH Cons.prems(1) False show ?thesis by simp
  qed
qed

lemma scan_instances_registered:
  assumes sc: "scan_instances E insts (n, s) = Inr (n', s')" and em: "ITEMS s = []"
  shows "distinct (map fst (ITEMS s'))"
    and "filter (item_named (ents s) k) insts \<noteq> [] \<Longrightarrow>
           \<exists>v. map_of (ITEMS s') k = Some v \<and>
               inst (items s' v) = last (filter (item_named (ents s) k) insts)"
    and "(k, v) \<in> set (ITEMS s') \<Longrightarrow>
           filter (item_named (ents s) k) insts \<noteq> [] \<and>
           inst (items s' v) = last (filter (item_named (ents s) k) insts)"
proof -
  from em have ok: "registry_ok s" by (simp add: registry_ok_def)
  from em have r0: "registered_inst s k = None" by (simp add: registered_inst_def)
  from scan_instances_registry [OF sc ok] r0
  have reg: "registered_inst s' k =
        (if filter (item_named (ents s) k) insts = [] then None
         else Some (last (filter (item_named (ents s) k) insts)))"
    by simp
  from scan_instances_distinct [OF sc] em show d: "distinct (map fst (ITEMS s'))" by simp
  {
    assume "filter (item_named (ents s) k) insts \<noteq> []"
    with reg show "\<exists>v. map_of (ITEMS s') k = Some v \<and>
               inst (items s' v) = last (filter (item_named (ents s) k) insts)"
      by (auto simp add: registered_inst_def)
  }
  {
    assume "(k, v) \<in> set (ITEMS s')"
    with d have "map_of (ITEMS s') k = Some v" by simp
    then have "registered_inst s' k = Some (inst (items s' v))" by (simp add: registered_inst_def)
    with reg show "filter (item_named (ents s) k) insts \<noteq> [] \<and>
           inst (items s' v) = last (filter (item_named (ents s) k) insts)"
      by (auto split: if_splits)
  }
qed

lemma last_filter_holds: "filter P xs \<noteq> [] \<Longrightarrow> P (last (filter P xs))"
proof -
  assume "filter P xs \<noteq> []"
  then have "last (filter P xs) \<in> set (filter P xs)" by (rule last_in_set)
  then show ?thesis by simp
qed

lemma scan_instances_not_registered:
  assumes sc: "scan_instances E insts (n, s) = Inr (n', s')" and em: "ITEMS s = []"
    and a: "item_named (ents s) nm a" and nl: "a \<noteq> last (filter (item_named (ents s) nm) insts)"
    and v: "v \<in> snd ` set (ITEMS s')"
  shows "inst (items s' v) \<noteq> a"
proof
  assume eq: "inst (items s' v) = a"
  from v obtain k where kv: "(k, v) \<in> set (ITEMS s')" by auto
  from scan_instances_registered(3) [OF sc em kv]
  have ne: "filter (item_named (ents s) k) insts \<noteq> []"
    and l: "inst (items s' v) = last (filter (item_named (ents s) k) insts)" by simp_all
  from last_filter_holds [OF ne] l eq have "item_named (ents s) k a" by simp
  with a have "k = nm" by (simp add: item_named_def)
  with l eq nl show False by simp
qed


text \<open>
  Claim C10. The scan of the instances fails only for an item kind without an item type,
  never for a name that is used twice. After the scan the name of every item instance is
  registered once, with the item of the instance of that name that was scanned last. An
  earlier instance of the same name is the instance of no registered item, and no
  connection the function creates has an item of that instance as its source or target.
\<close>

theorem duplicate_name_last_wins:
  "isl (scan_instances E (func_instance s0) (no_names, s0)) =
     (\<not> types_known E (ents s0) (func_instance s0)) \<and>
   (ITEMS s0 = [] \<and> scan_instances E (func_instance s0) (no_names, s0) = Inr (n, s1) \<and>
    a \<in> set (func_instance s0) \<and> item_named (ents s0) nm a \<longrightarrow>
      (\<exists>v. map_of (ITEMS s1) nm = Some v \<and>
           inst (items s1 v) = last (filter (item_named (ents s0) nm) (func_instance s0))) \<and>
      length (filter (\<lambda>e. fst e = nm) (ITEMS s1)) = 1 \<and>
      (a \<noteq> last (filter (item_named (ents s0) nm) (func_instance s0)) \<longrightarrow>
         (\<forall>v \<in> snd ` set (ITEMS s1). inst (items s1 v) \<noteq> a) \<and>
         (calc_connections E tex en s0 = Inr (s', b) \<longrightarrow>
            (\<forall>c. next_conn s0 \<le> c \<and> c < next_conn s' \<longrightarrow>
                 inst (items s' (out (conns s' c))) \<noteq> a \<and>
                 inst (items s' (inp (conns s' c))) \<noteq> a))))"
proof (intro conjI impI)
  show "isl (scan_instances E (func_instance s0) (no_names, s0)) =
     (\<not> types_known E (ents s0) (func_instance s0))"
  proof (cases "types_known E (ents s0) (func_instance s0)")
    case True
    from scan_instances_succeeds [OF True, of no_names] True show ?thesis by auto
  next
    case False
    from scan_instances_fails [OF False, of no_names] False show ?thesis by simp
  qed
next
  assume h: "ITEMS s0 = [] \<and> scan_instances E (func_instance s0) (no_names, s0) = Inr (n, s1) \<and>
    a \<in> set (func_instance s0) \<and> item_named (ents s0) nm a"
  then have em: "ITEMS s0 = []"
    and sc: "scan_instances E (func_instance s0) (no_names, s0) = Inr (n, s1)"
    and a: "a \<in> set (func_instance s0)" "item_named (ents s0) nm a"
    by simp_all
  from a have ne: "filter (item_named (ents s0) nm) (func_instance s0) \<noteq> []"
    by (auto simp add: filter_empty_conv)
  from scan_instances_registered(2) [OF sc em ne]
  show ex: "\<exists>v. map_of (ITEMS s1) nm = Some v \<and>
           inst (items s1 v) = last (filter (item_named (ents s0) nm) (func_instance s0))" .
  then obtain v where "map_of (ITEMS s1) nm = Some v" by blast
  from one_entry_per_key [OF scan_instances_registered(1) [OF sc em] this]
  show "length (filter (\<lambda>e. fst e = nm) (ITEMS s1)) = 1" .
  assume nl: "a \<noteq> last (filter (item_named (ents s0) nm) (func_instance s0))"
  show reg: "\<forall>v \<in> snd ` set (ITEMS s1). inst (items s1 v) \<noteq> a"
    using scan_instances_not_registered [OF sc em a(2) nl] by blast
  assume cc: "calc_connections E tex en s0 = Inr (s', b)"
  from cc obtain n2 s2 ovs by_index s3 ov where
    sc2: "scan_instances E (func_instance s0) (no_names, s0) = Inr (n2, s2)" and
    be: "build_edges E n2 ov (map snd (ITEMS s2)) (s2\<lparr>info_overlay := ovs\<rparr>) = Inr s3" and
    fin: "s' = (fix_counts s3)\<lparr>info_overlay := fst (make_frames tex en (ovs, by_index))\<rparr>"
    by (rule calc_connections_Inr)
  from sc sc2 have s2: "s2 = s1" by simp
  from scan_instances_frame [OF sc] have nc: "next_conn s1 = next_conn s0" by simp
  note bc = build_edges_conns [OF be]
  note bf = build_edges_frame [OF be]
  show "\<forall>c. next_conn s0 \<le> c \<and> c < next_conn s' \<longrightarrow>
                 inst (items s' (out (conns s' c))) \<noteq> a \<and>
                 inst (items s' (inp (conns s' c))) \<noteq> a"
  proof (intro allI impI)
    fix c assume c: "next_conn s0 \<le> c \<and> c < next_conn s'"
    with fin s2 nc have "next_conn (s2\<lparr>info_overlay := ovs\<rparr>) \<le> c \<and> c < next_conn s3" by simp
    with bc have "out (conns s3 c) \<in> set (map snd (ITEMS s2)) \<and>
        inp (conns s3 c) \<in> snd ` set (ITEMS (s2\<lparr>info_overlay := ovs\<rparr>))" by blast
    with s2 have o: "out (conns s3 c) \<in> snd ` set (ITEMS s1)"
      and i: "inp (conns s3 c) \<in> snd ` set (ITEMS s1)" by simp_all
    from bf s2 have inst_eq: "\<And>v. inst (items s3 v) = inst (items s1 v)" by simp
    from reg o have "inst (items s1 (out (conns s3 c))) \<noteq> a" by blast
    moreover from reg i have "inst (items s1 (inp (conns s3 c))) \<noteq> a" by blast
    ultimately
    show "inst (items s' (out (conns s' c))) \<noteq> a \<and> inst (items s' (inp (conns s' c))) \<noteq> a"
      using inst_eq fin by simp
  qed
qed

theorem duplicate_name_last_wins_witness:
  "types_known example_env (ents twin_scene) (func_instance twin_scene) \<and>
   \<not> isl (scan_instances example_env (func_instance twin_scene) (no_names, twin_scene)) \<and>
   ITEMS twin_scene = [] \<and>
   scan_instances example_env (func_instance twin_scene) (no_names, twin_scene) =
     Inr (scanned example_env twin_scene) \<and>
   0 \<in> set (func_instance twin_scene) \<and> item_named (ents twin_scene) ''twin'' 0 \<and>
   last (filter (item_named (ents twin_scene) ''twin'') (func_instance twin_scene)) = 1 \<and>
   ITEMS (snd (scanned example_env twin_scene)) = [(''twin'', 1), (''door'', 2)] \<and>
   inst (items (snd (scanned example_env twin_scene)) 1) = 1 \<and>
   length (filter (\<lambda>e. fst e = ''twin'') (ITEMS (snd (scanned example_env twin_scene)))) = 1 \<and>
   calc_connections example_env [] False twin_scene =
     Inr (projr (calc_connections example_env [] False twin_scene)) \<and>
   next_conn (fst (projr (calc_connections example_env [] False twin_scene))) = 1 \<and>
   inst (items (fst (projr (calc_connections example_env [] False twin_scene)))
     (out (conns (fst (projr (calc_connections example_env [] False twin_scene))) 0))) \<noteq> 0 \<and>
   inst (items (fst (projr (calc_connections example_env [] False twin_scene)))
     (inp (conns (fst (projr (calc_connections example_env [] False twin_scene))) 0))) \<noteq> 0"
proof -
  let ?sc = "scanned example_env twin_scene"
  let ?c = "calc_connections example_env [] False twin_scene"
  have tk: "types_known example_env (ents twin_scene) (func_instance twin_scene)"
    by (simp add: types_known_def twin_scene_def scene_eval is_item_def)
  have em: "ITEMS twin_scene = []"
    by (simp add: twin_scene_def fresh_scene_def)
  have "\<not> isl (scan_instances example_env (func_instance twin_scene) (no_names, twin_scene))"
    by (simp add: twin_scene_def scene_eval)
  then have sc: "scan_instances example_env (func_instance twin_scene) (no_names, twin_scene) =
     Inr (fst ?sc, snd ?sc)"
    by (cases "scan_instances example_env (func_instance twin_scene) (no_names, twin_scene)")
      (simp_all add: scanned_def)
  have a: "0 \<in> set (func_instance twin_scene) \<and> item_named (ents twin_scene) ''twin'' 0"
    by (simp add: twin_scene_def scene_eval item_named_def is_item_def)
  have l: "last (filter (item_named (ents twin_scene) ''twin'') (func_instance twin_scene)) = 1"
    by (simp add: twin_scene_def scene_eval item_named_def is_item_def)
  have it: "ITEMS (snd ?sc) = [(''twin'', 1), (''door'', 2)]"
    by (simp add: twin_scene_def scene_eval)
  have "\<not> isl ?c"
    by (simp add: twin_scene_def scene_eval)
  then have c: "?c = Inr (fst (projr ?c), snd (projr ?c))"
    by (cases ?c) simp_all
  have nc: "next_conn twin_scene = 0 \<and> next_conn (fst (projr ?c)) = 1"
    by (simp add: twin_scene_def scene_eval)
  note th = duplicate_name_last_wins [of example_env twin_scene "fst ?sc" "snd ?sc" 0 "''twin''"
      "[]" False "fst (projr ?c)" "snd (projr ?c)"]
  from th tk have 1: "\<not> isl (scan_instances example_env (func_instance twin_scene)
      (no_names, twin_scene))" by blast
  from th em sc a have 2: "(\<exists>v. map_of (ITEMS (snd ?sc)) ''twin'' = Some v \<and>
      inst (items (snd ?sc) v) =
        last (filter (item_named (ents twin_scene) ''twin'') (func_instance twin_scene))) \<and>
      length (filter (\<lambda>e. fst e = ''twin'') (ITEMS (snd ?sc))) = 1"
    by blast
  then have 3: "inst (items (snd ?sc) 1) = 1"
    by (simp add: it l)
  from th em sc a l c nc
  have 4: "inst (items (fst (projr ?c)) (out (conns (fst (projr ?c)) 0))) \<noteq> 0 \<and>
      inst (items (fst (projr ?c)) (inp (conns (fst (projr ?c)) 0))) \<noteq> 0"
    by simp
  from tk 1 em sc a l it 3 2 c nc 4 show ?thesis by simp
qed

subsection \<open>The connection counts\<close>

lemma count_inputs_fix [simp]:
  "count_inputs (fix_counts_item w s) it = count_inputs s it"
  "count_tbeam_inputs (fix_counts_item w s) it = count_tbeam_inputs s it"
  by (simp_all add: count_inputs_def count_tbeam_inputs_def)

lemma fix_counts_item_other:
  "e \<noteq> inst (items s w) \<Longrightarrow> ents (fix_counts_item w s) e = ents s e"
  by (simp add: fix_counts_item_def Let_def)

lemma fix_counts_item_same:
  "counts_fixed (fix_counts_item v s) v"
  by (simp add: counts_fixed_def fix_counts_item_def Let_def set_fixup_def count_inputs_def
      count_tbeam_inputs_def)

lemma fix_counts_item_keeps:
  assumes "counts_fixed s v" and "inst (items s w) = inst (items s v) \<longrightarrow> w = v"
  shows "counts_fixed (fix_counts_item w s) v"
proof (cases "w = v")
  case True
  then show ?thesis by (simp add: fix_counts_item_same)
next
  case False
  with assms(2) have "inst (items s v) \<noteq> inst (items s w)" by auto
  from fix_counts_item_other [OF this] assms(1) show ?thesis
    by (simp add: counts_fixed_def)
qed

lemma fix_counts_item_idem:
  assumes "counts_fixed s v"
  shows "fix_counts_item v s = s"
proof -
  let ?e = "ents s (inst (items s v))"
  have 1: "fixup ?e CONN_COUNT \<noteq> None \<Longrightarrow>
      set_fixup CONN_COUNT (FInt (count_inputs s (items s v))) ?e = ?e"
    using assms by (simp add: counts_fixed_def set_fixup_def map_upd_triv)
  have 2: "fixup ?e CONN_COUNT_TBEAM \<noteq> None \<Longrightarrow>
      set_fixup CONN_COUNT_TBEAM (FInt (count_tbeam_inputs s (items s v))) ?e = ?e"
    using assms by (simp add: counts_fixed_def set_fixup_def map_upd_triv)
  show ?thesis
  proof (cases "fixup ?e CONN_COUNT \<noteq> None")
    case True
    note a = this
    show ?thesis
    proof (cases "fixup ?e CONN_COUNT_TBEAM \<noteq> None")
      case True
      with a 1 2 show ?thesis
        by (simp add: fix_counts_item_def Let_def count_tbeam_inputs_def)
    next
      case False
      with a 1 show ?thesis
        by (simp add: fix_counts_item_def Let_def)
    qed
  next
    case False
    note a = this
    show ?thesis
    proof (cases "fixup ?e CONN_COUNT_TBEAM \<noteq> None")
      case True
      with a 2 show ?thesis
        by (simp add: fix_counts_item_def Let_def count_tbeam_inputs_def)
    next
      case False
      with a show ?thesis
        by (simp add: fix_counts_item_def Let_def)
    qed
  qed
qed

lemma fold_fix_counts_fixed:
  assumes "\<forall>v \<in> V. \<forall>w \<in> V. inst (items s w) = inst (items s v) \<longrightarrow> w = v"
    and "set xs \<subseteq> V" and "G \<subseteq> V" and "\<forall>v \<in> G. counts_fixed s v"
  shows "\<forall>v \<in> G \<union> set xs. counts_fixed (fold fix_counts_item xs s) v"
  using assms
proof (induction xs arbitrary: s G)
  case Nil
  then show ?case by simp
next
  case (Cons x xs)
  let ?s1 = "fix_counts_item x s"
  have inj: "\<forall>v \<in> V. \<forall>w \<in> V. inst (items ?s1 w) = inst (items ?s1 v) \<longrightarrow> w = v"
    using Cons.prems(1) by simp
  have xs: "set xs \<subseteq> V" using Cons.prems(2) by simp
  have x: "x \<in> V" using Cons.prems(2) by simp
  have G: "insert x G \<subseteq> V" using Cons.prems(3) x by simp
  have good: "\<forall>v \<in> insert x G. counts_fixed ?s1 v"
  proof
    fix v assume "v \<in> insert x G"
    then show "counts_fixed ?s1 v"
    proof
      assume "v = x"
      then show ?thesis by (simp add: fix_counts_item_same)
    next
      assume v: "v \<in> G"
      with Cons.prems(3) have "v \<in> V" by auto
      with Cons.prems(1) x have "inst (items s x) = inst (items s v) \<longrightarrow> x = v" by blast
      from fix_counts_item_keeps [OF _ this] Cons.prems(4) v show ?thesis by blast
    qed
  qed
  from Cons.IH [OF inj xs G good] show ?case by simp
qed

lemma fold_fix_counts_idem:
  "\<forall>v \<in> set xs. counts_fixed s v \<Longrightarrow> fold fix_counts_item xs s = s"
  by (induction xs) (simp_all add: fix_counts_item_idem)

lemma fix_counts_fixed:
  assumes "\<forall>v \<in> snd ` set (ITEMS s). \<forall>w \<in> snd ` set (ITEMS s).
      inst (items s w) = inst (items s v) \<longrightarrow> w = v"
  shows "\<forall>v \<in> snd ` set (ITEMS s). counts_fixed (fix_counts s) v"
    and "fix_counts (fix_counts s) = fix_counts s"
proof -
  from fold_fix_counts_fixed [OF assms, of "map snd (ITEMS s)" "{}"]
  show g: "\<forall>v \<in> snd ` set (ITEMS s). counts_fixed (fix_counts s) v"
    by (simp add: fix_counts_def)
  have "fix_counts (fix_counts s) = fold fix_counts_item (map snd (ITEMS s)) (fix_counts s)"
    by (simp add: fix_counts_def [of "fix_counts s"])
  also from g have "\<dots> = fix_counts s"
    by (intro fold_fix_counts_idem) simp
  finally show "fix_counts (fix_counts s) = fix_counts s" .
qed

lemma counts_fixed_overlay [simp]:
  "counts_fixed (s\<lparr>info_overlay := X\<rparr>) v = counts_fixed s v"
  by (simp add: counts_fixed_def count_inputs_def count_tbeam_inputs_def)

lemma scan_instances_inst_inj:
  assumes sc: "scan_instances E insts (n, s) = Inr (n', s')" and em: "ITEMS s = []"
    and v: "v \<in> snd ` set (ITEMS s')" and w: "w \<in> snd ` set (ITEMS s')"
    and eq: "inst (items s' w) = inst (items s' v)"
  shows "w = v"
proof -
  from v obtain k where kv: "(k, v) \<in> set (ITEMS s')" by auto
  from w obtain k' where kw: "(k', w) \<in> set (ITEMS s')" by auto
  note rv = scan_instances_registered(3) [OF sc em kv]
  note rw = scan_instances_registered(3) [OF sc em kw]
  from rv last_filter_holds [of "item_named (ents s) k" insts]
  have "item_named (ents s) k (inst (items s' v))" by simp
  moreover from rw last_filter_holds [of "item_named (ents s) k'" insts]
  have "item_named (ents s) k' (inst (items s' w))" by simp
  ultimately have "k' = k" using eq by (simp add: item_named_def)
  note d = scan_instances_registered(1) [OF sc em]
  from d kv have "map_of (ITEMS s') k = Some v" by simp
  moreover from d kw \<open>k' = k\<close> have "map_of (ITEMS s') k = Some w" by simp
  ultimately show ?thesis by simp
qed

text \<open>
  Claim C4. After \<^verbatim>\<open>calc_connections\<close>, started with an empty \<^verbatim>\<open>ITEMS\<close>, for every registered
  item whose instance has the connection count variable that variable holds the number of
  the item's inputs whose type is not the funnel polarity type, and for every one whose
  instance has the funnel count variable that variable holds the number of the inputs
  whose type is the funnel polarity type. Computing the counts again leaves the state as
  it is.
\<close>

theorem connection_counts_fixed:
  "ITEMS s0 = [] \<and> calc_connections E tex en s0 = Inr (s', b) \<longrightarrow>
     (\<forall>v \<in> snd ` set (ITEMS s').
        (fixup (ents s' (inst (items s' v))) CONN_COUNT \<noteq> None \<longrightarrow>
           fixup (ents s' (inst (items s' v))) CONN_COUNT =
             Some (FInt (int (card {c \<in> inputs (items s' v). type (conns s' c) \<noteq> TBEAM_DIR})))) \<and>
        (fixup (ents s' (inst (items s' v))) CONN_COUNT_TBEAM \<noteq> None \<longrightarrow>
           fixup (ents s' (inst (items s' v))) CONN_COUNT_TBEAM =
             Some (FInt (int (card {c \<in> inputs (items s' v). type (conns s' c) = TBEAM_DIR}))))) \<and>
     fix_counts s' = s'"
proof (intro impI)
  assume h: "ITEMS s0 = [] \<and> calc_connections E tex en s0 = Inr (s', b)"
  then have em: "ITEMS s0 = []" and cc: "calc_connections E tex en s0 = Inr (s', b)"
    by simp_all
  from cc obtain n1 s1 ovs by_index s2 ov where
    sc: "scan_instances E (func_instance s0) (no_names, s0) = Inr (n1, s1)" and
    be: "build_edges E n1 ov (map snd (ITEMS s1)) (s1\<lparr>info_overlay := ovs\<rparr>) = Inr s2" and
    fin: "s' = (fix_counts s2)\<lparr>info_overlay := fst (make_frames tex en (ovs, by_index))\<rparr>"
    by (rule calc_connections_Inr)
  note bf = build_edges_frame [OF be]
  from bf have I: "ITEMS s2 = ITEMS s1" and inst_eq: "\<And>v. inst (items s2 v) = inst (items s1 v)"
    by simp_all
  have inj: "\<forall>v \<in> snd ` set (ITEMS s2). \<forall>w \<in> snd ` set (ITEMS s2).
      inst (items s2 w) = inst (items s2 v) \<longrightarrow> w = v"
    using scan_instances_inst_inj [OF sc em] by (simp add: I inst_eq)
  from fix_counts_fixed(1) [OF inj] fin
  have good: "\<forall>v \<in> snd ` set (ITEMS s'). counts_fixed s' v" by simp
  have idem: "fix_counts s' = s'"
    unfolding fix_counts_def by (rule fold_fix_counts_idem) (use good in simp)
  from good idem
  show "(\<forall>v \<in> snd ` set (ITEMS s').
        (fixup (ents s' (inst (items s' v))) CONN_COUNT \<noteq> None \<longrightarrow>
           fixup (ents s' (inst (items s' v))) CONN_COUNT =
             Some (FInt (int (card {c \<in> inputs (items s' v). type (conns s' c) \<noteq> TBEAM_DIR})))) \<and>
        (fixup (ents s' (inst (items s' v))) CONN_COUNT_TBEAM \<noteq> None \<longrightarrow>
           fixup (ents s' (inst (items s' v))) CONN_COUNT_TBEAM =
             Some (FInt (int (card {c \<in> inputs (items s' v). type (conns s' c) = TBEAM_DIR}))))) \<and>
     fix_counts s' = s'"
    by (simp add: counts_fixed_def count_inputs_def count_tbeam_inputs_def)
qed

theorem connection_counts_fixed_witness:
  "ITEMS counted_scene = [] \<and>
   calc_connections example_env [] False counted_scene =
     Inr (projr (calc_connections example_env [] False counted_scene)) \<and>
   1 \<in> snd ` set (ITEMS (fst (projr (calc_connections example_env [] False counted_scene)))) \<and>
   inst (items (fst (projr (calc_connections example_env [] False counted_scene))) 1) = 1 \<and>
   inputs (items (fst (projr (calc_connections example_env [] False counted_scene))) 1) = {0} \<and>
   type (conns (fst (projr (calc_connections example_env [] False counted_scene))) 0) = DEFAULT \<and>
   fixup (ents (fst (projr (calc_connections example_env [] False counted_scene))) 1) CONN_COUNT =
     Some (FInt 1) \<and>
   fixup (ents (fst (projr (calc_connections example_env [] False counted_scene))) 1)
     CONN_COUNT_TBEAM = Some (FInt 0) \<and>
   fix_counts (fst (projr (calc_connections example_env [] False counted_scene))) =
     fst (projr (calc_connections example_env [] False counted_scene))"
proof -
  let ?c = "calc_connections example_env [] False counted_scene"
  let ?s = "fst (projr ?c)"
  have em: "ITEMS counted_scene = []"
    by (simp add: counted_scene_def fresh_scene_def)
  have "\<not> isl ?c"
    by (simp add: counted_scene_def scene_eval)
  then have c: "?c = Inr (fst (projr ?c), snd (projr ?c))"
    by (cases ?c) simp_all
  have m: "1 \<in> snd ` set (ITEMS ?s)"
    by (simp add: counted_scene_def scene_eval)
  have i: "inst (items ?s 1) = 1"
    by (simp add: counted_scene_def scene_eval)
  have inp: "inputs (items ?s 1) = {0}"
    by (simp add: counted_scene_def scene_eval)
  have ty: "type (conns ?s 0) = DEFAULT"
    by (simp add: counted_scene_def scene_eval)
  have p: "fixup (ents ?s 1) CONN_COUNT \<noteq> None \<and> fixup (ents ?s 1) CONN_COUNT_TBEAM \<noteq> None"
    by (simp add: counted_scene_def scene_eval set_fixup_def)
  note th = connection_counts_fixed [of counted_scene example_env "[]" False ?s "snd (projr ?c)"]
  from th em c have all: "\<forall>v \<in> snd ` set (ITEMS ?s).
        (fixup (ents ?s (inst (items ?s v))) CONN_COUNT \<noteq> None \<longrightarrow>
           fixup (ents ?s (inst (items ?s v))) CONN_COUNT =
             Some (FInt (int (card {c \<in> inputs (items ?s v). type (conns ?s c) \<noteq> TBEAM_DIR})))) \<and>
        (fixup (ents ?s (inst (items ?s v))) CONN_COUNT_TBEAM \<noteq> None \<longrightarrow>
           fixup (ents ?s (inst (items ?s v))) CONN_COUNT_TBEAM =
             Some (FInt (int (card {c \<in> inputs (items ?s v). type (conns ?s c) = TBEAM_DIR}))))"
    and idem: "fix_counts ?s = ?s"
    by blast+
  from all m have "(fixup (ents ?s (inst (items ?s 1))) CONN_COUNT \<noteq> None \<longrightarrow>
           fixup (ents ?s (inst (items ?s 1))) CONN_COUNT =
             Some (FInt (int (card {c \<in> inputs (items ?s 1). type (conns ?s c) \<noteq> TBEAM_DIR})))) \<and>
        (fixup (ents ?s (inst (items ?s 1))) CONN_COUNT_TBEAM \<noteq> None \<longrightarrow>
           fixup (ents ?s (inst (items ?s 1))) CONN_COUNT_TBEAM =
             Some (FInt (int (card {c \<in> inputs (items ?s 1). type (conns ?s c) = TBEAM_DIR}))))"
    by blast
  with p have "fixup (ents ?s 1) CONN_COUNT =
      Some (FInt (int (card {c \<in> {0}. type (conns ?s c) \<noteq> TBEAM_DIR}))) \<and>
    fixup (ents ?s 1) CONN_COUNT_TBEAM =
      Some (FInt (int (card {c \<in> {0}. type (conns ?s c) = TBEAM_DIR})))"
    by (simp only: i inp) simp
  moreover from ty have "{c \<in> {0}. type (conns ?s c) \<noteq> TBEAM_DIR} = {0}"
    and "{c \<in> {0}. type (conns ?s c) = TBEAM_DIR} = {}"
    by auto
  ultimately have v: "fixup (ents ?s 1) CONN_COUNT = Some (FInt 1) \<and>
      fixup (ents ?s 1) CONN_COUNT_TBEAM = Some (FInt 0)"
    by simp
  from em c m i inp ty v idem show ?thesis by simp
qed

subsection \<open>Frames\<close>

lemma frame_overlays_spec:
  "list_all (\<lambda>overlay. overlay < length ovs) os \<Longrightarrow>
     frame_overlays mat os (ovs, frames) =
       (ovs @ map (\<lambda>overlay. make_frame mat (ovs ! overlay)) os,
        frames @ [length ovs ..< length ovs + length os])"
proof (induction os arbitrary: ovs frames)
  case Nil
  then show ?case by simp
next
  case (Cons a os)
  let ?ovs1 = "ovs @ [make_frame mat (ovs ! a)]"
  from Cons.prems have v: "list_all (\<lambda>overlay. overlay < length ?ovs1) os"
    by (auto simp add: list_all_iff)
  from Cons.prems have m: "map (\<lambda>overlay. make_frame mat (?ovs1 ! overlay)) os =
      map (\<lambda>overlay. make_frame mat (ovs ! overlay)) os"
    by (auto simp add: list_all_iff nth_append)
  have "[length ovs ..< length ovs + Suc (length os)] =
      length ovs # [Suc (length ovs) ..< length ovs + Suc (length os)]"
    by (rule upt_conv_Cons) simp
  then have u: "[length ovs ..< length ovs + length (a # os)] =
      length ovs # [length ?ovs1 ..< length ?ovs1 + length os]"
    by (simp del: upt_Suc)
  have "frame_overlays mat (a # os) (ovs, frames) =
      frame_overlays mat os (?ovs1, frames @ [length ovs])"
    by simp
  also have "\<dots> = (?ovs1 @ map (\<lambda>overlay. make_frame mat (ovs ! overlay)) os,
      (frames @ [length ovs]) @ [length ?ovs1 ..< length ?ovs1 + length os])"
    by (simp only: Cons.IH [OF v] m)
  also have "\<dots> = (ovs @ map (\<lambda>overlay. make_frame mat (ovs ! overlay)) (a # os),
      frames @ [length ovs ..< length ovs + length (a # os)])"
    by (simp only: u) simp
  finally show ?case .
qed

lemma frames_of_rebase:
  assumes "frames_of tex (ovs @ ext) ovs' p shape"
    and "list_all (\<lambda>overlay. overlay < length ovs) (overlays shape)"
  shows "frames_of tex ovs ovs' p shape"
proof (cases "p = 0")
  case True
  with assms(1) show ?thesis by (simp add: frames_of_def)
next
  case False
  have "ovs ! (overlays shape ! k) = (ovs @ ext) ! (overlays shape ! k)"
    if "k < length (overlays shape)" for k
    using that assms(2) by (simp add: list_all_length nth_append)
  with False assms(1) show ?thesis
    by (auto simp add: frames_of_def)
qed

lemma frames_of_extend:
  assumes "frames_of tex ovs ovs1 p shape"
  shows "frames_of tex ovs (ovs1 @ ext) p shape"
proof (cases "p = 0")
  case True
  with assms show ?thesis by (simp add: frames_of_def)
next
  case False
  with assms show ?thesis
    by (auto simp add: frames_of_def nth_append)
qed

lemma frame_shapes_spec:
  assumes "frame_shapes tex i shapes ovs = (ovs', shapes')"
    and "list_all (new_shape ovs) shapes"
  shows "(\<exists>ext. ovs' = ovs @ ext) \<and> length shapes' = length shapes \<and>
     (\<forall>p < length shapes.
        overlays (shapes' ! p) = overlays (shapes ! p) \<and> name (shapes' ! p) = name (shapes ! p) \<and>
        index (shapes' ! p) = index (shapes ! p) \<and> frames_of tex ovs ovs' (i + p) (shapes' ! p))"
  using assms
proof (induction shapes arbitrary: i ovs ovs' shapes')
  case Nil
  then show ?case by simp
next
  case (Cons shape rest)
  from Cons.prems(2) have ns: "new_shape ovs shape" and nr: "list_all (new_shape ovs) rest"
    by simp_all
  from ns have valid: "list_all (\<lambda>overlay. overlay < length ovs) (overlays shape)"
    and nofr: "overlay_frames shape = []"
    by (simp_all add: new_shape_def)
  show ?case
  proof (cases "i = 0")
    case True
    obtain ovs2 rest' where r: "frame_shapes tex (Suc 0) rest ovs = (ovs2, rest')"
      by (cases "frame_shapes tex (Suc 0) rest ovs")
    with Cons.prems(1) True have e: "ovs' = ovs2" "shapes' = shape\<lparr>repeat_group := 0\<rparr> # rest'"
      by simp_all
    note ih = Cons.IH [OF r nr]
    have hd: "frames_of tex ovs ovs' 0 (shape\<lparr>repeat_group := 0\<rparr>)"
      using nofr by (simp add: frames_of_def)
    show ?thesis
    proof (intro conjI allI impI)
      from ih e show "\<exists>ext. ovs' = ovs @ ext" by simp
      from ih e show "length shapes' = length (shape # rest)" by simp
    next
      fix p assume p: "p < length (shape # rest)"
      show "overlays (shapes' ! p) = overlays ((shape # rest) ! p)"
        using ih e p by (cases p) simp_all
      show "name (shapes' ! p) = name ((shape # rest) ! p)"
        using ih e p by (cases p) simp_all
      show "index (shapes' ! p) = index ((shape # rest) ! p)"
        using ih e p by (cases p) simp_all
      show "frames_of tex ovs ovs' (i + p) (shapes' ! p)"
        using ih e p hd True by (cases p) simp_all
    qed
  next
    case False
    let ?mat = "tex ! ((i - 1) mod length tex)"
    let ?news = "map (\<lambda>overlay. make_frame ?mat (ovs ! overlay)) (overlays shape)"
    let ?ovs1 = "ovs @ ?news"
    let ?frames = "[length ovs ..< length ovs + length (overlays shape)]"
    have fo: "frame_overlays ?mat (overlays shape) (ovs, overlay_frames shape) = (?ovs1, ?frames)"
      using frame_overlays_spec [OF valid, of ?mat "overlay_frames shape"] nofr by simp
    obtain ovs2 rest' where r: "frame_shapes tex (Suc i) rest ?ovs1 = (ovs2, rest')"
      by (cases "frame_shapes tex (Suc i) rest ?ovs1")
    with Cons.prems(1) False fo
    have e: "ovs' = ovs2" "shapes' = shape\<lparr>repeat_group := i, overlay_frames := ?frames\<rparr> # rest'"
      by (simp_all add: Let_def)
    have nr1: "list_all (new_shape ?ovs1) rest"
      using nr by (auto simp add: list_all_iff new_shape_def intro: trans_less_add1)
    note ih = Cons.IH [OF r nr1]
    from ih obtain ext where ext: "ovs2 = ?ovs1 @ ext" by blast
    have hd1: "frames_of tex ovs ?ovs1 i (shape\<lparr>repeat_group := i, overlay_frames := ?frames\<rparr>)"
      using False by (simp add: frames_of_def nth_append)
    have hd: "frames_of tex ovs ovs' i (shape\<lparr>repeat_group := i, overlay_frames := ?frames\<rparr>)"
      using frames_of_extend [OF hd1, of ext] e ext by simp
    have tl: "frames_of tex ovs ovs' (Suc i + q) (rest' ! q)" if "q < length rest" for q
    proof -
      from ih that have f: "frames_of tex ?ovs1 ovs2 (Suc i + q) (rest' ! q)"
        and o: "overlays (rest' ! q) = overlays (rest ! q)" by simp_all
      from nr that have "new_shape ovs (rest ! q)" by (simp add: list_all_length)
      then have "list_all (\<lambda>overlay. overlay < length ovs) (overlays (rest' ! q))"
        by (simp add: new_shape_def o)
      from frames_of_rebase [OF f this] e show ?thesis by simp
    qed
    show ?thesis
    proof (intro conjI allI impI)
      from ext e show "\<exists>ext. ovs' = ovs @ ext" by simp
      from ih e show "length shapes' = length (shape # rest)" by simp
    next
      fix p assume p: "p < length (shape # rest)"
      show "overlays (shapes' ! p) = overlays ((shape # rest) ! p)"
        using ih e p by (cases p) simp_all
      show "name (shapes' ! p) = name ((shape # rest) ! p)"
        using ih e p by (cases p) simp_all
      show "index (shapes' ! p) = index ((shape # rest) ! p)"
        using ih e p by (cases p) simp_all
      show "frames_of tex ovs ovs' (i + p) (shapes' ! p)"
        using tl e p hd by (cases p) simp_all
    qed
  qed
qed

end
